theory Spec2Isabelle
  imports
    Main
    "HOL-Library.Char_ord"
    "HOL-Library.List_Lexorder"
    "HOL-Library.Product_Lexorder"
    "HOL-Library.Multiset"
begin

section \<open>Python strings\<close>

text \<open>
  A Python \<open>str\<close> is a sequence of code points. It is modelled as a \<^typ>\<open>string\<close>
  whose characters are the code points below 256 (the Latin-1 range); every
  string operation below is Python's operation on that range. Strings are compared
  by code point, shorter prefix first, as Python compares them.
\<close>

definition code :: "char \<Rightarrow> nat" where
  "code c = of_char c"

definition is_ascii_upper :: "char \<Rightarrow> bool" where
  "is_ascii_upper c = (65 \<le> code c \<and> code c \<le> 90)"

definition is_ascii_lower :: "char \<Rightarrow> bool" where
  "is_ascii_lower c = (97 \<le> code c \<and> code c \<le> 122)"

definition is_ascii_digit :: "char \<Rightarrow> bool" where
  "is_ascii_digit c = (48 \<le> code c \<and> code c \<le> 57)"

definition is_ascii :: "char \<Rightarrow> bool" where
  "is_ascii c = (code c < 128)"

text \<open>
  \<open>str.isalnum\<close> on one character: the ASCII letters and digits, and beyond ASCII
  the Latin-1 letters (U+00AA, U+00B5, U+00BA, U+00C0-U+00D6, U+00D8-U+00F6,
  U+00F8-U+00FF) and numeric characters (U+00B2, U+00B3, U+00B9, U+00BC-U+00BE).
\<close>

definition is_ascii_alnum :: "char \<Rightarrow> bool" where
  "is_ascii_alnum c = (is_ascii_upper c \<or> is_ascii_lower c \<or> is_ascii_digit c)"

definition isalnum :: "char \<Rightarrow> bool" where
  "isalnum c =
     (is_ascii_alnum c
      \<or> code c \<in> {170, 178, 179, 181, 185, 186, 188, 189, 190}
      \<or> (192 \<le> code c \<and> code c \<noteq> 215 \<and> code c \<noteq> 247))"

text \<open>
  \<open>str.lower\<close>: \<open>A\<close>-\<open>Z\<close> and the upper-case Latin-1 letters U+00C0-U+00DE
  (without the multiplication sign U+00D7) move up by 32; everything else stays.
\<close>

definition lower_char :: "char \<Rightarrow> char" where
  "lower_char c =
     (if is_ascii_upper c \<or> (192 \<le> code c \<and> code c \<le> 222 \<and> code c \<noteq> 215)
      then char_of (code c + 32) else c)"

definition lower :: "string \<Rightarrow> string" where
  "lower s = map lower_char s"

text \<open>
  \<open>str.isspace\<close> on one character: U+0009-U+000D, U+001C-U+0020, U+0085, U+00A0.
\<close>

definition isspace :: "char \<Rightarrow> bool" where
  "isspace c =
     ((9 \<le> code c \<and> code c \<le> 13) \<or> (28 \<le> code c \<and> code c \<le> 32)
      \<or> code c = 133 \<or> code c = 160)"

text \<open>\<open>s.strip()\<close> and \<open>s.strip('-')\<close>: drop the characters from both ends.\<close>

definition strip_chars :: "(char \<Rightarrow> bool) \<Rightarrow> string \<Rightarrow> string" where
  "strip_chars P s = rev (dropWhile P (rev (dropWhile P s)))"

definition strip :: "string \<Rightarrow> string" where
  "strip s = strip_chars isspace s"

text \<open>\<open>sub in s\<close>: \<open>sub\<close> occurs in \<open>s\<close> as a contiguous run.\<close>

fun startswith :: "string \<Rightarrow> string \<Rightarrow> bool" where
  "startswith s [] = True"
| "startswith [] (p # ps) = False"
| "startswith (c # cs) (p # ps) = (c = p \<and> startswith cs ps)"

definition endswith :: "string \<Rightarrow> string \<Rightarrow> bool" where
  "endswith s p = startswith (rev s) (rev p)"

fun py_in :: "string \<Rightarrow> string \<Rightarrow> bool" where
  "py_in sub [] = (sub = [])"
| "py_in sub (c # cs) = (startswith (c # cs) sub \<or> py_in sub cs)"

text \<open>\<open>s.split(sep)\<close> for a one-character separator: never an empty list.\<close>

fun split_on :: "char \<Rightarrow> string \<Rightarrow> string list" where
  "split_on sep [] = [[]]"
| "split_on sep (c # cs) =
     (if c = sep then [] # split_on sep cs
      else (case split_on sep cs of
              [] \<Rightarrow> [[c]]
            | w # ws \<Rightarrow> (c # w) # ws))"

text \<open>\<open>s.split(sep, 1)\<close>: cut at the first separator only.\<close>

definition split_once :: "char \<Rightarrow> string \<Rightarrow> string list" where
  "split_once sep s =
     (if sep \<in> set s
      then [takeWhile (\<lambda>c. c \<noteq> sep) s, tl (dropWhile (\<lambda>c. c \<noteq> sep) s)]
      else [s])"

text \<open>\<open>s.split()\<close>: the maximal runs of non-whitespace characters.\<close>

function split_ws :: "string \<Rightarrow> string list" where
  "split_ws s =
     (let t = dropWhile isspace s
      in if t = [] then []
         else takeWhile (\<lambda>c. \<not> isspace c) t # split_ws (dropWhile (\<lambda>c. \<not> isspace c) t))"
  by pat_completeness auto
termination
proof (relation "measure length")
  show "wf (measure length)" by simp
next
  fix s t :: string
  assume t: "t = dropWhile isspace s" and ne: "t \<noteq> []"
  have "length (dropWhile (\<lambda>c. \<not> isspace c) t) < length t"
  proof (cases t)
    case Nil
    with ne show ?thesis by simp
  next
    case (Cons c cs)
    have "dropWhile isspace s = c # cs"
      using t Cons by simp
    then have "\<not> isspace c"
      by (simp add: dropWhile_eq_Cons_conv)
    then have "dropWhile (\<lambda>c. \<not> isspace c) t = dropWhile (\<lambda>c. \<not> isspace c) cs"
      using Cons by simp
    then show ?thesis
      using Cons length_dropWhile_le [of "\<lambda>c. \<not> isspace c" cs] by simp
  qed
  also have "length t \<le> length s"
    using t length_dropWhile_le [of isspace s] by simp
  finally show "(dropWhile (\<lambda>c. \<not> isspace c) t, s) \<in> measure length" by simp
qed

declare split_ws.simps [simp del]

section \<open>Errors\<close>

datatype py_error =
    TimeoutExpired
  | FileNotFoundError
  | IndexError
  | OSError

text \<open>\<open>xs[i]\<close> for a non-negative index: \<open>IndexError\<close> out of range.\<close>

definition py_index :: "'a list \<Rightarrow> nat \<Rightarrow> py_error + 'a" where
  "py_index xs i = (if i < length xs then Inr (xs ! i) else Inl IndexError)"

section \<open>Keyword sets\<close>

definition AI_APP_KEYWORDS :: "string list" where
  "AI_APP_KEYWORDS =
     [''cursor'', ''copilot'', ''cody'', ''claude'', ''chatgpt'', ''openai'', ''anthropic'',
      ''gpt'', ''gemini'', ''bard'', ''perplexity'', ''phind'', ''tabnine'', ''kite'',
      ''windsurf'', ''continue'', ''aider'', ''codeium'', ''sourcegraph'', ''pieces'',
      ''notion'', ''obsidian'', ''grammarly'', ''jasper'', ''copy.ai'', ''writesonic'',
      ''midjourney'', ''dall-e'', ''stable-diffusion'', ''runway'', ''luma'',
      ''whisper'', ''otter'', ''descript'', ''krisp'',
      ''raycast'', ''alfred'',
      ''warp'',
      ''fig'',
      ''zed'']"

definition AI_HOST_APPS :: "string list" where
  "AI_HOST_APPS =
     [''visual studio code'', ''vscode'', ''intellij'', ''pycharm'', ''webstorm'',
      ''goland'', ''rider'', ''clion'', ''datagrip'', ''rubymine'', ''phpstorm'',
      ''android studio'', ''xcode'', ''sublime text'', ''atom'', ''vim'', ''neovim'',
      ''emacs'', ''nova'', ''bbedit'', ''textmate'']"

section \<open>Classification and identifiers\<close>

text \<open>
  \<open>is_ai_related\<close>: each \<open>for\<close> loop returns at its first matching keyword, and every
  match returns the same pair, so a loop is the test whether some keyword matches.
\<close>

fun ai_keyword_loop :: "string list \<Rightarrow> string \<Rightarrow> string \<Rightarrow> bool" where
  "ai_keyword_loop [] name_lower bundle_lower = False"
| "ai_keyword_loop (keyword # rest) name_lower bundle_lower =
     (if py_in keyword name_lower \<or> py_in keyword bundle_lower then True
      else ai_keyword_loop rest name_lower bundle_lower)"

fun host_keyword_loop :: "string list \<Rightarrow> string \<Rightarrow> bool" where
  "host_keyword_loop [] name_lower = False"
| "host_keyword_loop (host # rest) name_lower =
     (if py_in host name_lower then True else host_keyword_loop rest name_lower)"

definition is_ai_related :: "string \<Rightarrow> string \<Rightarrow> bool \<times> bool" where
  "is_ai_related name bundle_id =
     (let name_lower = lower name;
          bundle_lower = (if bundle_id \<noteq> [] then lower bundle_id else [])
      in if ai_keyword_loop AI_APP_KEYWORDS name_lower bundle_lower then (True, False)
         else if host_keyword_loop AI_HOST_APPS name_lower then (False, True)
         else (False, False))"

text \<open>
  \<open>re.sub(r'[^a-z0-9]+', '-', s)\<close>: scanning from the left, every maximal run of
  characters outside \<open>a\<close>-\<open>z\<close>, \<open>0\<close>-\<open>9\<close> becomes one hyphen.
\<close>

definition in_az09 :: "char \<Rightarrow> bool" where
  "in_az09 c = (is_ascii_lower c \<or> is_ascii_digit c)"

function re_sub_runs :: "string \<Rightarrow> string" where
  "re_sub_runs [] = []"
| "re_sub_runs (c # cs) =
     (if in_az09 c then c # re_sub_runs cs
      else CHR ''-'' # re_sub_runs (dropWhile (\<lambda>x. \<not> in_az09 x) cs))"
  by pat_completeness auto
termination
  by (relation "measure length") (auto simp: less_Suc_eq_le length_dropWhile_le)

definition generate_app_id :: "string \<Rightarrow> string" where
  "generate_app_id name =
     (let app_id = lower name;
          app_id = re_sub_runs app_id;
          app_id = strip_chars (\<lambda>c. c = CHR ''-'') app_id
      in app_id)"

section \<open>Records\<close>

record AppSignature =
  bundle_id :: "string option"
  team_id :: "string option"
  paths :: "string list"
  executable_name :: "string option"
  publisher :: "string option"
  version :: "string option"

record DiscoveredApp =
  app_id :: string
  name :: string
  vendor :: "string option"
  category :: string
  path :: string
  macos :: "AppSignature option"
  windows :: "AppSignature option"
  linux :: "AppSignature option"
  icon_path :: "string option"
  icon_base64 :: "string option"
  is_ai_app :: bool
  is_ai_host :: bool
  discovered_at :: string
  machine_id :: string

section \<open>The structured document: \<open>to_dict\<close>\<close>

text \<open>
  The values \<open>asdict\<close> produces: \<open>None\<close>, strings, booleans, lists of strings and
  nested dictionaries. A dictionary keeps its insertion order, so it is a list of
  key-value pairs with distinct keys.
\<close>

datatype py_value =
    PNone
  | PStr string
  | PBool bool
  | PList "string list"
  | PDict "(string \<times> py_value) list"

type_synonym py_dict = "(string \<times> py_value) list"

definition opt_str :: "string option \<Rightarrow> py_value" where
  "opt_str v = (case v of None \<Rightarrow> PNone | Some s \<Rightarrow> PStr s)"

definition asdict_signature :: "AppSignature \<Rightarrow> py_dict" where
  "asdict_signature s =
     [(''bundle_id'', opt_str (bundle_id s)),
      (''team_id'', opt_str (team_id s)),
      (''paths'', PList (paths s)),
      (''executable_name'', opt_str (executable_name s)),
      (''publisher'', opt_str (publisher s)),
      (''version'', opt_str (version s))]"

definition opt_signature :: "AppSignature option \<Rightarrow> py_value" where
  "opt_signature v = (case v of None \<Rightarrow> PNone | Some s \<Rightarrow> PDict (asdict_signature s))"

definition asdict :: "DiscoveredApp \<Rightarrow> py_dict" where
  "asdict a =
     [(''app_id'', PStr (app_id a)),
      (''name'', PStr (name a)),
      (''vendor'', opt_str (vendor a)),
      (''category'', PStr (category a)),
      (''path'', PStr (path a)),
      (''macos'', opt_signature (macos a)),
      (''windows'', opt_signature (windows a)),
      (''linux'', opt_signature (linux a)),
      (''icon_path'', opt_str (icon_path a)),
      (''icon_base64'', opt_str (icon_base64 a)),
      (''is_ai_app'', PBool (is_ai_app a)),
      (''is_ai_host'', PBool (is_ai_host a)),
      (''discovered_at'', PStr (discovered_at a)),
      (''machine_id'', PStr (machine_id a))]"

text \<open>Python's truth value of an object.\<close>

fun truthy :: "py_value \<Rightarrow> bool" where
  "truthy PNone = False"
| "truthy (PStr s) = (s \<noteq> [])"
| "truthy (PBool b) = b"
| "truthy (PList xs) = (xs \<noteq> [])"
| "truthy (PDict kvs) = (kvs \<noteq> [])"

text \<open>
  \<open>d.get(k)\<close> is \<open>map_of d k\<close>. \<open>d[k] = v\<close> replaces the value in place when the
  key is there and appends the pair otherwise; \<open>d.pop(k, None)\<close> removes the key.
  \<open>v.values()\<close> is only reached on a nested dictionary.
\<close>

definition dict_set :: "string \<Rightarrow> py_value \<Rightarrow> py_dict \<Rightarrow> py_dict" where
  "dict_set k v d =
     (if k \<in> fst ` set d then map (\<lambda>(k', v'). if k' = k then (k', v) else (k', v')) d
      else d @ [(k, v)])"

definition dict_pop :: "string \<Rightarrow> py_dict \<Rightarrow> py_dict" where
  "dict_pop k d = filter (\<lambda>(k', v'). k' \<noteq> k) d"

fun dict_values :: "py_value \<Rightarrow> py_value list" where
  "dict_values (PDict kvs) = map snd kvs"
| "dict_values v = []"

text \<open>
  \<open>if d.get(key) and not any(v for v in d[key].values() if v): d[key] = None\<close>
\<close>

definition clear_empty_signature :: "string \<Rightarrow> py_dict \<Rightarrow> py_dict" where
  "clear_empty_signature key d =
     (case map_of d key of
        None \<Rightarrow> d
      | Some sig \<Rightarrow>
          if truthy sig \<and> \<not> list_ex truthy (filter truthy (dict_values sig))
          then dict_set key PNone d else d)"

definition to_dict :: "DiscoveredApp \<Rightarrow> bool \<Rightarrow> py_dict" where
  "to_dict self include_icon =
     (let d = asdict self;
          d = clear_empty_signature ''macos'' d;
          d = clear_empty_signature ''windows'' d;
          d = clear_empty_signature ''linux'' d;
          d = (if \<not> include_icon then dict_pop ''icon_base64'' d else d)
      in filter (\<lambda>(k, v). v \<noteq> PNone) d)"

text \<open>
  The property a structured document is said to have: no key with a null or empty
  value, at the top level or inside a nested object.
\<close>

fun null_or_empty :: "py_value \<Rightarrow> bool" where
  "null_or_empty PNone = True"
| "null_or_empty (PStr s) = (s = [])"
| "null_or_empty (PBool b) = False"
| "null_or_empty (PList xs) = (xs = [])"
| "null_or_empty (PDict kvs) = (kvs = [])"

fun no_null_or_empty :: "py_value \<Rightarrow> bool" where
  "no_null_or_empty (PDict kvs) =
     list_all (\<lambda>kv. \<not> null_or_empty (snd kv) \<and> no_null_or_empty (snd kv)) kvs"
| "no_null_or_empty v = True"

section \<open>The surroundings of a run\<close>

text \<open>
  What \<open>subprocess.run\<close> does: it returns a completed process (return code, standard
  output, standard error), or raises \<open>TimeoutExpired\<close> when the time limit passes
  and \<open>FileNotFoundError\<close> when the executable does not exist.
\<close>

datatype proc_result =
    Completed int string string
  | Raised py_error

text \<open>
  The files of the machine: a path has contents or does not exist. \<open>read_bytes\<close>
  is only called on a path that exists.
\<close>

type_synonym files = "string \<Rightarrow> string option"

definition exists :: "files \<Rightarrow> string \<Rightarrow> bool" where
  "exists fs p = (fs p \<noteq> None)"

definition unlink :: "files \<Rightarrow> string \<Rightarrow> files" where
  "unlink fs p = fs(p := None)"

definition read_bytes :: "files \<Rightarrow> string \<Rightarrow> string" where
  "read_bytes fs p = (case fs p of None \<Rightarrow> [] | Some data \<Rightarrow> data)"

definition write_bytes :: "files \<Rightarrow> string \<Rightarrow> string \<Rightarrow> files" where
  "write_bytes fs p data = fs(p \<mapsto> data)"

text \<open>
  \<open>base / part\<close> on paths, for a non-empty \<open>part\<close>: an absolute \<open>part\<close> replaces
  \<open>base\<close>.
\<close>

definition joinpath :: "string \<Rightarrow> string \<Rightarrow> string" where
  "joinpath base part = (if startswith part ''/'' then part else base @ ''/'' @ part)"

text \<open>
  Library functions the collectors call and whose results no property below depends
  on are parameters: Base64 encoding, \<open>Path(p).name\<close>, and the search for the
  copyright pattern, which gives the text of group 1 when the pattern matches.
  \<open>node_hash\<close> is the first 12 hexadecimal digits of the SHA-256 of the host name.
\<close>

record stdlib =
  b64encode :: "string \<Rightarrow> string"
  path_name :: "string \<Rightarrow> string"
  copyright_search :: "string \<Rightarrow> string option"
  node_hash :: string

text \<open>The fields of a discoverer object.\<close>

record discoverer =
  extract_icons :: bool
  icons_dir :: "string option"

section \<open>The macOS collector\<close>

text \<open>
  A property list is a dictionary; \<open>plist.get(key, '')\<close> is \<open>plist_get\<close>.
  Reading \<open>Info.plist\<close> finds no file, fails to load it, or loads it.
\<close>

type_synonym plist = "string \<Rightarrow> string option"

definition plist_get :: "plist \<Rightarrow> string \<Rightarrow> string" where
  "plist_get pl key = (case pl key of None \<Rightarrow> [] | Some v \<Rightarrow> v)"

datatype plist_file =
    NoInfoPlist
  | LoadFails
  | Loaded plist

text \<open>
  What \<open>sips\<close> does to the temporary file: it completes with a return code and
  leaves the file with some contents or missing, or \<open>subprocess.run\<close> raises and
  the file stays as it was created.
\<close>

datatype sips_result =
    SipsCompleted int "string option"
  | SipsRaised py_error

text \<open>
  What the collector finds at one application bundle: its path and stem, its
  \<open>Info.plist\<close>, what \<open>codesign\<close> answers, the \<open>*.icns\<close> files of its resource
  directory, the name the system gives the temporary file, what \<open>sips\<close> answers, and
  the time at which the record is built.
\<close>

record app_bundle =
  app_path :: string
  stem :: string
  info_plist :: plist_file
  codesign :: proc_result
  icns_files :: "string list"
  tmp_name :: string
  sips :: sips_result
  clock :: string

text \<open>\<open>MacOSDiscoverer._get_team_id\<close>\<close>

fun team_id_loop :: "string list \<Rightarrow> py_error + string option" where
  "team_id_loop [] = Inr None"
| "team_id_loop (line # rest) =
     (if py_in ''TeamIdentifier='' line
      then (case py_index (split_on CHR ''='' line) 1 of
              Inl e \<Rightarrow> Inl e
            | Inr field \<Rightarrow>
                (let team_id = strip field
                 in if team_id \<noteq> [] \<and> team_id \<noteq> ''not set'' then Inr (Some team_id)
                    else team_id_loop rest))
      else team_id_loop rest)"

definition get_team_id :: "proc_result \<Rightarrow> py_error + string option" where
  "get_team_id run =
     (case run of
        Raised e \<Rightarrow> Inl e
      | Completed returncode out output \<Rightarrow>
          if output \<noteq> [] then team_id_loop (split_on CHR ''\<newline>'' output)
          else Inr None)"

text \<open>
  \<open>MacOSDiscoverer._extract_icon\<close>. \<open>convert_icon\<close> is its \<open>try\<close> block: the
  temporary file is created empty and kept on close (\<open>delete=False\<close>); \<open>sips\<close> runs;
  the result is read and the file unlinked. An exception is caught by the
  \<open>except\<close> clause, which prints and falls through to \<open>return None\<close>.
\<close>

definition convert_icon :: "files \<Rightarrow> string \<Rightarrow> sips_result \<Rightarrow> files \<times> string option" where
  "convert_icon fs tmp_path run =
     (let fs = write_bytes fs tmp_path []
      in case run of
           SipsRaised e \<Rightarrow> (fs, None)
         | SipsCompleted returncode out \<Rightarrow>
             (let fs = fs(tmp_path := out)
              in if returncode = 0 \<and> exists fs tmp_path
                 then (let png_data = read_bytes fs tmp_path
                       in (unlink fs tmp_path, Some png_data))
                 else ((if exists fs tmp_path then unlink fs tmp_path else fs), None)))"

definition find_icon :: "files \<Rightarrow> app_bundle \<Rightarrow> plist \<Rightarrow> string \<Rightarrow> string option" where
  "find_icon fs b pl icon_file =
     (let resources_path = joinpath (joinpath (app_path b) ''Contents'') ''Resources'';
          icon_path = joinpath resources_path icon_file
      in if \<not> exists fs icon_path
         then (let icon_file = plist_get pl ''CFBundleIconFile''
               in if icon_file \<noteq> []
                  then (let icon_path = joinpath resources_path icon_file
                        in if \<not> exists fs icon_path
                           then (case icns_files b of
                                   [] \<Rightarrow> None
                                 | f # fs' \<Rightarrow> Some f)
                           else Some icon_path)
                  else Some icon_path)
         else Some icon_path)"

definition extract_icon :: "files \<Rightarrow> app_bundle \<Rightarrow> plist \<Rightarrow> files \<times> string option" where
  "extract_icon fs b pl =
     (let icon_file = plist_get pl ''CFBundleIconFile'';
          icon_file = (if icon_file = [] then plist_get pl ''CFBundleIconName'' else icon_file)
      in if icon_file = [] then (fs, None)
         else (let icon_file =
                     (if \<not> endswith icon_file ''.icns'' then icon_file @ ''.icns''
                      else icon_file)
               in case find_icon fs b pl icon_file of
                    None \<Rightarrow> (fs, None)
                  | Some found \<Rightarrow>
                      if \<not> exists fs found then (fs, None)
                      else convert_icon fs (tmp_name b) (sips b)))"

text \<open>\<open>any(kw in s for kw in kws)\<close>\<close>

definition any_in :: "string list \<Rightarrow> string \<Rightarrow> bool" where
  "any_in kws s = list_ex (\<lambda>kw. py_in kw s) kws"

text \<open>
  \<open>MacOSDiscoverer._discover_app\<close>, in three parts. \<open>macos_category\<close> is the block
  that determines the category. \<open>macos_record\<close> builds the record from the property
  list and the team identifier; nothing in it can fail. \<open>attach_icon\<close> is the block
  that extracts the icon when icons are requested.
\<close>

definition macos_category :: "bool \<Rightarrow> bool \<Rightarrow> string \<Rightarrow> string" where
  "macos_category is_ai is_host nm =
     (if is_ai
      then (if any_in [''code'', ''ide'', ''cursor'', ''copilot'', ''cody'', ''studio'', ''zed'']
                 (lower nm)
            then ''dev_tools''
            else if any_in [''chat'', ''claude'', ''gpt'', ''gemini'', ''perplexity''] (lower nm)
            then ''chat''
            else if any_in [''notion'', ''obsidian'', ''grammarly''] (lower nm)
            then ''productivity''
            else if any_in [''midjourney'', ''dall'', ''stable'', ''runway''] (lower nm)
            then ''creative''
            else ''other'')
      else if is_host then ''dev_tools''
      else ''other'')"

definition macos_record :: "stdlib \<Rightarrow> app_bundle \<Rightarrow> plist \<Rightarrow> string option \<Rightarrow> DiscoveredApp" where
  "macos_record lib b pl team =
     (let bundle_id = plist_get pl ''CFBundleIdentifier'';
          name =
            (if plist_get pl ''CFBundleName'' \<noteq> [] then plist_get pl ''CFBundleName''
             else if plist_get pl ''CFBundleDisplayName'' \<noteq> []
             then plist_get pl ''CFBundleDisplayName''
             else stem b);
          version = plist_get pl ''CFBundleShortVersionString'';
          executable = plist_get pl ''CFBundleExecutable'';
          copyright_str = plist_get pl ''NSHumanReadableCopyright'';
          vendor =
            (if copyright_str \<noteq> []
             then (case copyright_search lib copyright_str of
                     None \<Rightarrow> None
                   | Some group1 \<Rightarrow> Some (strip group1))
             else None);
          (is_ai, is_host) = is_ai_related name bundle_id;
          category = macos_category is_ai is_host name;
          signature =
            \<lparr>bundle_id = Some bundle_id, team_id = team,
             paths = [app_path b], executable_name = Some executable,
             publisher = None, version = Some version\<rparr>
      in \<lparr>app_id = generate_app_id name, name = name, vendor = vendor,
          category = category, path = app_path b,
          macos = Some signature, windows = None, linux = None,
          icon_path = None, icon_base64 = None,
          is_ai_app = is_ai, is_ai_host = is_host,
          discovered_at = clock b, machine_id = node_hash lib\<rparr>)"

definition attach_icon ::
  "discoverer \<Rightarrow> stdlib \<Rightarrow> files \<Rightarrow> app_bundle \<Rightarrow> plist \<Rightarrow> DiscoveredApp
     \<Rightarrow> files \<times> DiscoveredApp"
where
  "attach_icon self lib fs b pl app =
     (if extract_icons self
      then (let (fs, icon_data) = extract_icon fs b pl
            in case icon_data of
                 None \<Rightarrow> (fs, app)
               | Some data \<Rightarrow>
                   if data = [] then (fs, app)
                   else (case icons_dir self of
                           Some dir \<Rightarrow>
                             (let png = joinpath dir (app_id app @ ''.png'')
                              in (write_bytes fs png data, app\<lparr>icon_path := Some png\<rparr>))
                         | None \<Rightarrow>
                             (fs, app\<lparr>icon_base64 := Some (b64encode lib data)\<rparr>)))
      else (fs, app))"

definition macos_discover_app ::
  "discoverer \<Rightarrow> stdlib \<Rightarrow> files \<Rightarrow> app_bundle \<Rightarrow> files \<times> (py_error + DiscoveredApp option)"
where
  "macos_discover_app self lib fs b =
     (case info_plist b of
        NoInfoPlist \<Rightarrow> (fs, Inr None)
      | LoadFails \<Rightarrow> (fs, Inr None)
      | Loaded pl \<Rightarrow>
          if plist_get pl ''CFBundleIdentifier'' = [] then (fs, Inr None)
          else (case get_team_id (codesign b) of
                  Inl e \<Rightarrow> (fs, Inl e)
                | Inr team \<Rightarrow>
                    (case attach_icon self lib fs b pl (macos_record lib b pl team) of
                       (fs', app) \<Rightarrow> (fs', Inr (Some app)))))"

text \<open>
  \<open>MacOSDiscoverer.discover_all\<close>. A search path exists or not; \<open>glob("*.app")\<close>
  lists its bundles and \<open>iterdir()\<close> its entries, each with the bundles
  \<open>glob("*.app")\<close> finds in it. The loop state is the list \<open>apps\<close> and the set
  \<open>seen_bundle_ids\<close>; an exception of \<open>_discover_app\<close> ends the loops.
\<close>

record dir_entry =
  is_dir :: bool
  suffix :: string
  entry_apps :: "app_bundle list"

record search_root =
  root_exists :: bool
  root_apps :: "app_bundle list"
  root_entries :: "dir_entry list"

type_synonym scan_state = "DiscoveredApp list \<times> string set"

definition add_if_new :: "DiscoveredApp option \<Rightarrow> scan_state \<Rightarrow> scan_state" where
  "add_if_new found st =
     (case found of
        None \<Rightarrow> st
      | Some app \<Rightarrow>
          (case macos app of
             None \<Rightarrow> st
           | Some sig \<Rightarrow>
               (case bundle_id sig of
                  None \<Rightarrow> st
                | Some bid \<Rightarrow>
                    if bid = [] then st
                    else if bid \<notin> snd st then (fst st @ [app], insert bid (snd st))
                    else st)))"

fun scan_bundles ::
  "discoverer \<Rightarrow> stdlib \<Rightarrow> app_bundle list \<Rightarrow> files \<Rightarrow> scan_state \<Rightarrow> files \<times> (py_error + scan_state)"
where
  "scan_bundles self lib [] fs st = (fs, Inr st)"
| "scan_bundles self lib (b # bs) fs st =
     (case macos_discover_app self lib fs b of
        (fs', Inl e) \<Rightarrow> (fs', Inl e)
      | (fs', Inr found) \<Rightarrow> scan_bundles self lib bs fs' (add_if_new found st))"

fun scan_entries ::
  "discoverer \<Rightarrow> stdlib \<Rightarrow> dir_entry list \<Rightarrow> files \<Rightarrow> scan_state \<Rightarrow> files \<times> (py_error + scan_state)"
where
  "scan_entries self lib [] fs st = (fs, Inr st)"
| "scan_entries self lib (subdir # rest) fs st =
     (if is_dir subdir \<and> \<not> suffix subdir = ''.app''
      then (case scan_bundles self lib (entry_apps subdir) fs st of
              (fs', Inl e) \<Rightarrow> (fs', Inl e)
            | (fs', Inr st') \<Rightarrow> scan_entries self lib rest fs' st')
      else scan_entries self lib rest fs st)"

fun scan_roots ::
  "discoverer \<Rightarrow> stdlib \<Rightarrow> search_root list \<Rightarrow> files \<Rightarrow> scan_state \<Rightarrow> files \<times> (py_error + scan_state)"
where
  "scan_roots self lib [] fs st = (fs, Inr st)"
| "scan_roots self lib (search_path # rest) fs st =
     (if \<not> root_exists search_path then scan_roots self lib rest fs st
      else (case scan_bundles self lib (root_apps search_path) fs st of
              (fs', Inl e) \<Rightarrow> (fs', Inl e)
            | (fs', Inr st') \<Rightarrow>
                (case scan_entries self lib (root_entries search_path) fs' st' of
                   (fs'', Inl e) \<Rightarrow> (fs'', Inl e)
                 | (fs'', Inr st'') \<Rightarrow> scan_roots self lib rest fs'' st'')))"

definition macos_discover_all ::
  "discoverer \<Rightarrow> stdlib \<Rightarrow> search_root list \<Rightarrow> files \<Rightarrow> files \<times> (py_error + DiscoveredApp list)"
where
  "macos_discover_all self lib search_paths fs =
     (case scan_roots self lib search_paths fs ([], {}) of
        (fs', Inl e) \<Rightarrow> (fs', Inl e)
      | (fs', Inr st) \<Rightarrow> (fs', Inr (fst st)))"

section \<open>The Windows collector\<close>

text \<open>
  An executable found by \<open>rglob("*.exe")\<close>: its path, \<open>exe_path.name\<close>,
  \<open>exe_path.stem\<close> and the time at which its record is built.
\<close>

record exe_file =
  exe_path :: string
  exe_name :: string
  exe_stem :: string
  exe_clock :: string

record install_root =
  install_exists :: bool
  install_exes :: "exe_file list"

text \<open>\<open>WindowsDiscoverer._discover_app\<close>\<close>

definition windows_discover_app :: "stdlib \<Rightarrow> exe_file \<Rightarrow> DiscoveredApp option" where
  "windows_discover_app lib exe =
     (let name = exe_stem exe;
          (is_ai, is_host) = is_ai_related name []
      in if \<not> is_ai \<and> \<not> is_host then None
         else (let signature =
                     \<lparr>bundle_id = None, team_id = None, paths = [exe_path exe],
                      executable_name = Some (exe_name exe), publisher = None, version = None\<rparr>
               in Some \<lparr>app_id = generate_app_id name, name = name, vendor = None,
                         category = ''other'', path = exe_path exe,
                         macos = None, windows = Some signature, linux = None,
                         icon_path = None, icon_base64 = None,
                         is_ai_app = is_ai, is_ai_host = is_host,
                         discovered_at = exe_clock exe, machine_id = node_hash lib\<rparr>))"

text \<open>\<open>WindowsDiscoverer.discover_all\<close>\<close>

fun scan_exes :: "stdlib \<Rightarrow> exe_file list \<Rightarrow> DiscoveredApp list \<Rightarrow> DiscoveredApp list" where
  "scan_exes lib [] apps = apps"
| "scan_exes lib (exe # rest) apps =
     (if any_in [''uninstall'', ''update'', ''setup'', ''installer''] (lower (exe_name exe))
      then scan_exes lib rest apps
      else (case windows_discover_app lib exe of
              None \<Rightarrow> scan_exes lib rest apps
            | Some app \<Rightarrow> scan_exes lib rest (apps @ [app])))"

fun scan_install_roots ::
  "stdlib \<Rightarrow> install_root list \<Rightarrow> DiscoveredApp list \<Rightarrow> DiscoveredApp list"
where
  "scan_install_roots lib [] apps = apps"
| "scan_install_roots lib (search_path # rest) apps =
     (if \<not> install_exists search_path then scan_install_roots lib rest apps
      else scan_install_roots lib rest (scan_exes lib (install_exes search_path) apps))"

definition windows_discover_all :: "stdlib \<Rightarrow> install_root list \<Rightarrow> DiscoveredApp list" where
  "windows_discover_all lib search_paths = scan_install_roots lib search_paths []"

section \<open>The Linux collector\<close>

text \<open>
  A desktop-entry file: \<open>read_text()\<close> raises or gives the contents; the time at
  which its record is built.
\<close>

datatype read_result =
    ReadFails
  | ReadText string

record desktop_file =
  read_text :: read_result
  entry_clock :: string

record desktop_dir =
  dir_exists :: bool
  dir_files :: "desktop_file list"

text \<open>
  The loop over the lines of \<open>LinuxDiscoverer._parse_desktop_file\<close>, with the
  variables \<open>name\<close> and \<open>exec_path\<close> it assigns. An index out of range raises.
\<close>

fun desktop_lines ::
  "string list \<Rightarrow> string option \<Rightarrow> string option \<Rightarrow> py_error + (string option \<times> string option)"
where
  "desktop_lines [] nm exec_path = Inr (nm, exec_path)"
| "desktop_lines (line # rest) nm exec_path =
     (if startswith line ''Name=''
      then (case py_index (split_once CHR ''='' line) 1 of
              Inl e \<Rightarrow> Inl e
            | Inr v \<Rightarrow> desktop_lines rest (Some (strip v)) exec_path)
      else if startswith line ''Exec=''
      then (case py_index (split_once CHR ''='' line) 1 of
              Inl e \<Rightarrow> Inl e
            | Inr v \<Rightarrow>
                (case py_index (split_ws v) 0 of
                   Inl e \<Rightarrow> Inl e
                 | Inr w \<Rightarrow> desktop_lines rest nm (Some (strip w))))
      else desktop_lines rest nm exec_path)"

text \<open>
  \<open>LinuxDiscoverer._parse_desktop_file\<close>. \<open>name\<close> and \<open>exec_path\<close> are \<open>None\<close> or
  a string, and both \<open>None\<close> and the empty string count as false.
\<close>

definition parse_desktop_file :: "stdlib \<Rightarrow> desktop_file \<Rightarrow> py_error + DiscoveredApp option" where
  "parse_desktop_file lib desktop =
     (case read_text desktop of
        ReadFails \<Rightarrow> Inr None
      | ReadText content \<Rightarrow>
          (case desktop_lines (split_on CHR ''\<newline>'' content) None None of
             Inl e \<Rightarrow> Inl e
           | Inr (nm, exec_path) \<Rightarrow>
               (if nm = None \<or> nm = Some [] then Inr None
                else (let name = (case nm of None \<Rightarrow> [] | Some v \<Rightarrow> v);
                           (is_ai, is_host) = is_ai_related name [];
                           exec_set = (exec_path \<noteq> None \<and> exec_path \<noteq> Some []);
                           exec_str = (case exec_path of None \<Rightarrow> [] | Some p \<Rightarrow> p);
                           signature =
                             \<lparr>bundle_id = None, team_id = None,
                              paths = (if exec_set then [exec_str] else []),
                              executable_name =
                                (if exec_set then Some (path_name lib exec_str) else None),
                              publisher = None, version = None\<rparr>
                       in Inr (Some \<lparr>app_id = generate_app_id name, name = name, vendor = None,
                                     category = ''other'',
                                     path = (if exec_set then exec_str else []),
                                     macos = None, windows = None, linux = Some signature,
                                     icon_path = None, icon_base64 = None,
                                     is_ai_app = is_ai, is_ai_host = is_host,
                                     discovered_at = entry_clock desktop,
                                     machine_id = node_hash lib\<rparr>)))))"

text \<open>\<open>LinuxDiscoverer.discover_all\<close>\<close>

fun scan_desktop_files ::
  "stdlib \<Rightarrow> desktop_file list \<Rightarrow> DiscoveredApp list \<Rightarrow> py_error + DiscoveredApp list"
where
  "scan_desktop_files lib [] apps = Inr apps"
| "scan_desktop_files lib (desktop # rest) apps =
     (case parse_desktop_file lib desktop of
        Inl e \<Rightarrow> Inl e
      | Inr None \<Rightarrow> scan_desktop_files lib rest apps
      | Inr (Some app) \<Rightarrow> scan_desktop_files lib rest (apps @ [app]))"

fun scan_desktop_dirs ::
  "stdlib \<Rightarrow> desktop_dir list \<Rightarrow> DiscoveredApp list \<Rightarrow> py_error + DiscoveredApp list"
where
  "scan_desktop_dirs lib [] apps = Inr apps"
| "scan_desktop_dirs lib (d # rest) apps =
     (if \<not> dir_exists d then scan_desktop_dirs lib rest apps
      else (case scan_desktop_files lib (dir_files d) apps of
              Inl e \<Rightarrow> Inl e
            | Inr apps' \<Rightarrow> scan_desktop_dirs lib rest apps'))"

definition linux_discover_all :: "stdlib \<Rightarrow> desktop_dir list \<Rightarrow> py_error + DiscoveredApp list" where
  "linux_discover_all lib desktop_dirs = scan_desktop_dirs lib desktop_dirs []"

section \<open>\<open>discover_apps\<close>\<close>

text \<open>
  The machine a run sees: \<open>platform.system()\<close> and what each collector's fixed
  search locations hold.
\<close>

record machine =
  system :: string
  applications :: "search_root list"
  program_files :: "install_root list"
  desktop_dirs :: "desktop_dir list"

text \<open>
  \<open>apps.sort(key=lambda a: (not a.is_ai_app, not a.is_ai_host, a.name.lower()))\<close>:
  a stable sort; tuples compare component by component, \<open>False\<close> before \<open>True\<close>.
\<close>

definition sort_key_of :: "DiscoveredApp \<Rightarrow> bool \<times> bool \<times> string" where
  "sort_key_of a = (\<not> is_ai_app a, \<not> is_ai_host a, lower (name a))"

definition sort_apps :: "DiscoveredApp list \<Rightarrow> DiscoveredApp list" where
  "sort_apps apps = sort_key sort_key_of apps"

definition finish_apps :: "bool \<Rightarrow> DiscoveredApp list \<Rightarrow> DiscoveredApp list" where
  "finish_apps ai_only apps =
     (let apps = (if ai_only then filter (\<lambda>a. is_ai_app a \<or> is_ai_host a) apps else apps)
      in sort_apps apps)"

definition discover_apps ::
  "machine \<Rightarrow> stdlib \<Rightarrow> files \<Rightarrow> bool \<Rightarrow> bool \<Rightarrow> string option
     \<Rightarrow> files \<times> (py_error + DiscoveredApp list)"
where
  "discover_apps m lib fs ai_only with_icons dir =
     (let self = \<lparr>extract_icons = with_icons, icons_dir = dir\<rparr>
      in if system m = ''Darwin''
         then (case macos_discover_all self lib (applications m) fs of
                 (fs', Inl e) \<Rightarrow> (fs', Inl e)
               | (fs', Inr apps) \<Rightarrow> (fs', Inr (finish_apps ai_only apps)))
         else if system m = ''Windows''
         then (fs, Inr (finish_apps ai_only (windows_discover_all lib (program_files m))))
         else if system m = ''Linux''
         then (case linux_discover_all lib (desktop_dirs m) of
                 Inl e \<Rightarrow> (fs, Inl e)
               | Inr apps \<Rightarrow> (fs, Inr (finish_apps ai_only apps)))
         else (fs, Inr []))"

text \<open>
  The tier of a record in the registry order: AI applications, then AI-host
  applications, then the others.
\<close>

definition tier :: "DiscoveredApp \<Rightarrow> nat" where
  "tier a = (if is_ai_app a then 0 else if is_ai_host a then 1 else 2)"

definition registry_le :: "DiscoveredApp \<Rightarrow> DiscoveredApp \<Rightarrow> bool" where
  "registry_le a b =
     (tier a < tier b \<or> (tier a = tier b \<and> lower (name a) \<le> lower (name b)))"

section \<open>Notions the properties are stated with\<close>

text \<open>
  The bundles of the search paths in the order \<open>discover_all\<close> visits them: for each
  search path that exists, its own bundles, then the bundles of each entry that is a
  directory without the suffix \<open>.app\<close>.
\<close>

definition entry_bundles :: "dir_entry \<Rightarrow> app_bundle list" where
  "entry_bundles subdir =
     (if is_dir subdir \<and> \<not> suffix subdir = ''.app'' then entry_apps subdir else [])"

definition root_bundles :: "search_root \<Rightarrow> app_bundle list" where
  "root_bundles search_path =
     (if root_exists search_path
      then root_apps search_path @ concat (map entry_bundles (root_entries search_path))
      else [])"

definition scan_order :: "search_root list \<Rightarrow> app_bundle list" where
  "scan_order search_paths = concat (map root_bundles search_paths)"

text \<open>
  The bundle identifier a bundle declares: the non-empty \<open>CFBundleIdentifier\<close> of a
  property list that loads. The bundle identifier a record carries.
\<close>

definition declared_id :: "app_bundle \<Rightarrow> string option" where
  "declared_id b =
     (case info_plist b of
        NoInfoPlist \<Rightarrow> None
      | LoadFails \<Rightarrow> None
      | Loaded pl \<Rightarrow>
          if plist_get pl ''CFBundleIdentifier'' = [] then None
          else Some (plist_get pl ''CFBundleIdentifier''))"

definition macos_bundle_id :: "DiscoveredApp \<Rightarrow> string option" where
  "macos_bundle_id a = (case macos a of None \<Rightarrow> None | Some sig \<Rightarrow> bundle_id sig)"

text \<open>
  The lines of a desktop entry that set a key, and the value of such a line: the text
  after the five characters of \<open>Name=\<close> or \<open>Exec=\<close>.
\<close>

definition key_lines :: "string \<Rightarrow> string \<Rightarrow> string list" where
  "key_lines key content =
     filter (\<lambda>line. startswith line key) (split_on CHR ''\<newline>'' content)"

definition line_value :: "string \<Rightarrow> string" where
  "line_value line = drop 5 line"

text \<open>
  Library functions for the examples: the last component of a path without a
  trailing slash, and a copyright search that never matches.
\<close>

definition basename :: "string \<Rightarrow> string" where
  "basename p = rev (takeWhile (\<lambda>c. c \<noteq> CHR ''/'') (rev p))"

definition example_lib :: stdlib where
  "example_lib =
     \<lparr>b64encode = id, path_name = basename, copyright_search = Map.empty,
      node_hash = ''0123456789ab''\<rparr>"

text \<open>Example surroundings: a bundle with a loaded property list, and a search path.\<close>

definition example_bundle :: "string \<Rightarrow> string \<Rightarrow> string \<Rightarrow> proc_result \<Rightarrow> app_bundle" where
  "example_bundle p nm bid run =
     \<lparr>app_path = p, stem = nm,
      info_plist = Loaded (map_of [(''CFBundleIdentifier'', bid), (''CFBundleName'', nm),
                                   (''CFBundleIconFile'', ''AppIcon'')]),
      codesign = run, icns_files = [], tmp_name = ''/tmp/tmpicon.png'',
      sips = SipsRaised TimeoutExpired, clock = ''2024-01-01T00:00:00''\<rparr>"

definition example_root :: "app_bundle list \<Rightarrow> search_root" where
  "example_root bs = \<lparr>root_exists = True, root_apps = bs, root_entries = []\<rparr>"

text \<open>
  A platform signature without a value: every field is \<open>None\<close> or empty. What the
  structured document holds for a signature field: nothing for an absent signature
  or one without a value, the nested dictionary otherwise.
\<close>

definition blank :: "string option \<Rightarrow> bool" where
  "blank v = (v = None \<or> v = Some [])"

definition signature_empty :: "AppSignature \<Rightarrow> bool" where
  "signature_empty s =
     (blank (bundle_id s) \<and> blank (team_id s) \<and> paths s = [] \<and> blank (executable_name s)
      \<and> blank (publisher s) \<and> blank (version s))"

definition emitted_signature :: "AppSignature option \<Rightarrow> py_value" where
  "emitted_signature v =
     (case v of
        None \<Rightarrow> PNone
      | Some s \<Rightarrow> if signature_empty s then PNone else PDict (asdict_signature s))"

definition emitted :: "AppSignature option \<Rightarrow> py_value option" where
  "emitted v =
     (case v of
        None \<Rightarrow> None
      | Some s \<Rightarrow> if signature_empty s then None else Some (PDict (asdict_signature s)))"

text \<open>The dictionary of \<open>to_dict\<close> after the three signature checks.\<close>

definition cleaned :: "DiscoveredApp \<Rightarrow> py_dict" where
  "cleaned a =
     [(''app_id'', PStr (app_id a)),
      (''name'', PStr (name a)),
      (''vendor'', opt_str (vendor a)),
      (''category'', PStr (category a)),
      (''path'', PStr (path a)),
      (''macos'', emitted_signature (macos a)),
      (''windows'', emitted_signature (windows a)),
      (''linux'', emitted_signature (linux a)),
      (''icon_path'', opt_str (icon_path a)),
      (''icon_base64'', opt_str (icon_base64 a)),
      (''is_ai_app'', PBool (is_ai_app a)),
      (''is_ai_host'', PBool (is_ai_host a)),
      (''discovered_at'', PStr (discovered_at a)),
      (''machine_id'', PStr (machine_id a))]"

text \<open>
  The invariant of the scan loops of \<open>MacOSDiscoverer.discover_all\<close>, for the bundles
  scanned so far: the records carry distinct bundle identifiers, which are the
  identifiers declared by the scanned bundles; \<open>seen_bundle_ids\<close> holds these
  identifiers; and each record has the path of the first scanned bundle that
  declares its identifier.
\<close>

definition scan_inv :: "app_bundle list \<Rightarrow> scan_state \<Rightarrow> bool" where
  "scan_inv scanned st \<longleftrightarrow>
     distinct (map macos_bundle_id (fst st))
     \<and> set (map macos_bundle_id (fst st)) = declared_id ` set scanned - {None}
     \<and> snd st = {k. Some k \<in> declared_id ` set scanned}
     \<and> (\<forall>a \<in> set (fst st). \<exists>b. find (\<lambda>b. declared_id b = macos_bundle_id a) scanned = Some b
                                   \<and> path a = app_path b)"

text \<open>
  Example machines. A Mac with ChatGPT and Xcode in \<open>/Applications\<close> and a second
  copy of ChatGPT in a subdirectory; a Linux machine with three desktop entries.
  A record with a given name and classification.
\<close>

definition example_search_paths :: "search_root list" where
  "example_search_paths =
     [\<lparr>root_exists = True,
       root_apps =
         [example_bundle ''/Applications/ChatGPT.app'' ''ChatGPT'' ''com.openai.chat''
            (Completed 0 [] ''TeamIdentifier=ABCDE12345''),
          example_bundle ''/Applications/Xcode.app'' ''Xcode'' ''com.apple.dt.Xcode''
            (Completed 0 [] ''TeamIdentifier=not set'')],
       root_entries =
         [\<lparr>is_dir = True, suffix = [],
           entry_apps =
             [example_bundle ''/Applications/Old/ChatGPT.app'' ''ChatGPT'' ''com.openai.chat''
                (Completed 0 [] ''TeamIdentifier=not set'')]\<rparr>]\<rparr>]"

definition example_mac :: machine where
  "example_mac =
     \<lparr>system = ''Darwin'', applications = example_search_paths, program_files = [],
      desktop_dirs = []\<rparr>"

definition example_linux :: machine where
  "example_linux =
     \<lparr>system = ''Linux'', applications = [], program_files = [],
      desktop_dirs =
        [\<lparr>dir_exists = True,
          dir_files =
            [\<lparr>read_text = ReadText ''[Desktop Entry]\<newline>Name=Zoom\<newline>Exec=/usr/bin/zoom %U'',
              entry_clock = ''2024-01-01T00:00:00''\<rparr>,
             \<lparr>read_text = ReadText ''[Desktop Entry]\<newline>Name=Visual Studio Code\<newline>Exec=/usr/share/code/code %F'',
              entry_clock = ''2024-01-01T00:00:01''\<rparr>,
             \<lparr>read_text = ReadText ''[Desktop Entry]\<newline>Name=Cursor\<newline>Exec=/opt/cursor/cursor'',
              entry_clock = ''2024-01-01T00:00:02''\<rparr>]\<rparr>]\<rparr>"

definition example_app :: "string \<Rightarrow> bool \<Rightarrow> bool \<Rightarrow> DiscoveredApp" where
  "example_app nm ai host =
     \<lparr>app_id = generate_app_id nm, name = nm, vendor = None, category = ''other'', path = [],
      macos = None, windows = None, linux = None, icon_path = None, icon_base64 = None,
      is_ai_app = ai, is_ai_host = host,
      discovered_at = ''2024-01-01T00:00:00'', machine_id = ''0123456789ab''\<rparr>"

section \<open>Properties of the string operations\<close>

lemma startswith_iff: "startswith s p \<longleftrightarrow> (\<exists>post. s = p @ post)"
  by (induction s p rule: startswith.induct) auto

lemma py_in_iff: "py_in sub s \<longleftrightarrow> (\<exists>pre post. s = pre @ sub @ post)"
proof (induction s)
  case Nil
  then show ?case by auto
next
  case (Cons c cs)
  show ?case
  proof
    assume "py_in sub (c # cs)"
    then consider "startswith (c # cs) sub" | "py_in sub cs" by auto
    then show "\<exists>pre post. c # cs = pre @ sub @ post"
    proof cases
      case 1
      then obtain post where "c # cs = sub @ post" by (auto simp: startswith_iff)
      then have "c # cs = [] @ sub @ post" by simp
      then show ?thesis by blast
    next
      case 2
      with Cons obtain pre post where "cs = pre @ sub @ post" by blast
      then have "c # cs = (c # pre) @ sub @ post" by simp
      then show ?thesis by blast
    qed
  next
    assume "\<exists>pre post. c # cs = pre @ sub @ post"
    then obtain pre post where eq: "c # cs = pre @ sub @ post" by blast
    show "py_in sub (c # cs)"
    proof (cases pre)
      case Nil
      with eq have "startswith (c # cs) sub" by (auto simp: startswith_iff)
      then show ?thesis by simp
    next
      case (Cons d ds)
      with eq have "cs = ds @ sub @ post" by simp
      with Cons.IH have "py_in sub cs" by blast
      then show ?thesis by simp
    qed
  qed
qed

lemma lower_char_ascii_alnum: "is_ascii_alnum c \<Longrightarrow> in_az09 (lower_char c)"
  by (auto simp: is_ascii_alnum_def in_az09_def lower_char_def is_ascii_upper_def
      is_ascii_lower_def is_ascii_digit_def code_def)

lemma lower_char_not_alnum:
  "is_ascii c \<Longrightarrow> \<not> is_ascii_alnum c \<Longrightarrow> \<not> in_az09 (lower_char c)"
  by (auto simp: is_ascii_alnum_def in_az09_def lower_char_def is_ascii_upper_def
      is_ascii_lower_def is_ascii_digit_def code_def is_ascii_def)

lemma hyphen_not_az09: "\<not> in_az09 (CHR ''-'')"
  by (simp add: in_az09_def is_ascii_lower_def is_ascii_digit_def code_def)

subsection \<open>The substitution of runs\<close>

lemma re_sub_runs_chars: "c \<in> set (re_sub_runs s) \<Longrightarrow> in_az09 c \<or> c = CHR ''-''"
proof (induction s rule: re_sub_runs.induct)
  case 1
  then show ?case by simp
next
  case (2 d ds)
  then show ?case by (auto split: if_splits)
qed

lemma re_sub_runs_keeps: "c \<in> set s \<Longrightarrow> in_az09 c \<Longrightarrow> c \<in> set (re_sub_runs s)"
proof (induction s rule: re_sub_runs.induct)
  case 1
  then show ?case by simp
next
  case (2 d ds)
  show ?case
  proof (cases "in_az09 d")
    case True
    with 2 show ?thesis by auto
  next
    case False
    with 2 have "c \<in> set ds" by auto
    with \<open>in_az09 c\<close> have "c \<in> set (dropWhile (\<lambda>x. \<not> in_az09 x) ds)"
      by (induction ds) auto
    with 2 False show ?thesis by simp
  qed
qed

lemma re_sub_runs_skip:
  "\<not> in_az09 d \<Longrightarrow> dropWhile (\<lambda>x. \<not> in_az09 x) ds = r \<Longrightarrow>
   re_sub_runs (d # ds) = CHR ''-'' # re_sub_runs r"
  by auto

lemma re_sub_runs_no_double:
  "successively (\<lambda>a b. \<not> (a = CHR ''-'' \<and> b = CHR ''-'')) (re_sub_runs s)"
proof (induction s rule: re_sub_runs.induct)
  case 1
  then show ?case by simp
next
  case (2 d ds)
  show ?case
  proof (cases "in_az09 d")
    case True
    with 2 hyphen_not_az09 show ?thesis
      by (auto simp: successively_Cons)
  next
    case False
    let ?r = "dropWhile (\<lambda>x. \<not> in_az09 x) ds"
    have ih: "successively (\<lambda>a b. \<not> (a = CHR ''-'' \<and> b = CHR ''-'')) (re_sub_runs ?r)"
      using 2 False by simp
    show ?thesis
    proof (cases ?r)
      case Nil
      have "re_sub_runs (d # ds) = ''-''"
        using re_sub_runs_skip [OF False Nil] by simp
      then show ?thesis by simp
    next
      case (Cons e es)
      then have "in_az09 e" by (simp add: dropWhile_eq_Cons_conv)
      with Cons have "re_sub_runs ?r = e # re_sub_runs es" by simp
      moreover from \<open>in_az09 e\<close> hyphen_not_az09 have "e \<noteq> CHR ''-''" by auto
      ultimately show ?thesis using ih False by (simp add: successively_Cons)
    qed
  qed
qed

lemma re_sub_runs_no_az09:
  "\<forall>c \<in> set s. \<not> in_az09 c \<Longrightarrow> s \<noteq> [] \<Longrightarrow> re_sub_runs s = ''-''"
proof (cases s)
  case Nil
  assume "s \<noteq> []"
  with Nil show ?thesis by simp
next
  case (Cons d ds)
  assume a: "\<forall>c \<in> set s. \<not> in_az09 c"
  with Cons have "\<not> in_az09 d" and "dropWhile (\<lambda>x. \<not> in_az09 x) ds = []" by simp_all
  then have "re_sub_runs (d # ds) = ''-''"
    using re_sub_runs_skip [of d ds "[]"] by simp
  with Cons show ?thesis by simp
qed

subsection \<open>Stripping both ends\<close>

lemma strip_chars_set: "set (strip_chars P s) \<subseteq> set s"
proof
  fix x
  assume "x \<in> set (strip_chars P s)"
  then have "x \<in> set (dropWhile P (rev (dropWhile P s)))"
    by (simp add: strip_chars_def)
  then have "x \<in> set (rev (dropWhile P s))" by (rule set_dropWhileD)
  then have "x \<in> set (dropWhile P s)" by simp
  then show "x \<in> set s" by (rule set_dropWhileD)
qed

lemma strip_chars_keeps: "c \<in> set s \<Longrightarrow> \<not> P c \<Longrightarrow> c \<in> set (strip_chars P s)"
proof -
  assume c: "c \<in> set s" "\<not> P c"
  have keep: "c \<in> set (dropWhile P xs)" if "c \<in> set xs" for xs
    using that c(2) by (induction xs) auto
  show ?thesis
    unfolding strip_chars_def using keep [of s] keep [of "rev (dropWhile P s)"] c(1) by simp
qed

lemma strip_chars_hd: "strip_chars P s \<noteq> [] \<Longrightarrow> \<not> P (hd (strip_chars P s))"
proof -
  assume ne: "strip_chars P s \<noteq> []"
  let ?d = "dropWhile P s"
  let ?e = "dropWhile P (rev ?d)"
  from ne have e: "?e \<noteq> []" by (simp add: strip_chars_def)
  have d: "?d \<noteq> []"
  proof
    assume "?d = []"
    then have "?e = []" by (simp only: rev.simps dropWhile.simps)
    with e show False by simp
  qed
  have "\<not> P (hd ?d)" using d hd_dropWhile by blast
  obtain ts where ts: "rev ?d = ts @ ?e"
    by (metis takeWhile_dropWhile_id)
  then have "?d = rev ?e @ rev ts" by (metis rev_append rev_rev_ident)
  with e have "hd ?d = hd (rev ?e)" by (metis hd_append rev_is_Nil_conv)
  with \<open>\<not> P (hd ?d)\<close> show ?thesis by (simp add: strip_chars_def)
qed

lemma strip_chars_last: "strip_chars P s \<noteq> [] \<Longrightarrow> \<not> P (last (strip_chars P s))"
proof -
  assume ne: "strip_chars P s \<noteq> []"
  let ?e = "dropWhile P (rev (dropWhile P s))"
  from ne have e: "?e \<noteq> []" by (simp add: strip_chars_def)
  then have "\<not> P (hd ?e)" using hd_dropWhile by blast
  with e show ?thesis by (simp add: strip_chars_def last_rev)
qed

lemma successively_dropWhile: "successively R xs \<Longrightarrow> successively R (dropWhile P xs)"
  by (induction xs) (auto simp: successively_Cons)

lemma strip_chars_successively:
  assumes "successively R s" shows "successively R (strip_chars P s)"
proof -
  have "successively (\<lambda>x y. R y x) (rev (dropWhile P s))"
    using assms by (simp add: successively_dropWhile)
  then have "successively (\<lambda>x y. R y x) (dropWhile P (rev (dropWhile P s)))"
    by (rule successively_dropWhile)
  then show ?thesis by (simp add: strip_chars_def)
qed

lemma generate_app_id_chars:
  "c \<in> set (generate_app_id nm) \<Longrightarrow> in_az09 c \<or> c = CHR ''-''"
  using strip_chars_set [of "\<lambda>c. c = CHR ''-''" "re_sub_runs (lower nm)"]
    re_sub_runs_chars [of c "lower nm"]
  by (auto simp: generate_app_id_def)

section \<open>Properties of classification\<close>

lemma ai_keyword_loop_iff:
  "ai_keyword_loop kws n b \<longleftrightarrow> (\<exists>kw \<in> set kws. py_in kw n \<or> py_in kw b)"
  by (induction kws) auto

lemma host_keyword_loop_iff:
  "host_keyword_loop kws n \<longleftrightarrow> (\<exists>kw \<in> set kws. py_in kw n)"
  by (induction kws) auto

lemma is_ai_related_cases:
  "is_ai_related nm bid = (True, False) \<or> is_ai_related nm bid = (False, True)
   \<or> is_ai_related nm bid = (False, False)"
  by (simp add: is_ai_related_def Let_def)

lemma is_ai_related_not_both: "is_ai_related nm bid \<noteq> (True, True)"
  using is_ai_related_cases [of nm bid] by auto

text \<open>
  C3. For every name and identifier, \<open>is_ai_related\<close> returns one of the three pairs
  (AI application, AI host, neither), never both flags; and when the lower-cased name
  contains a keyword of the AI list, the result is the AI-application pair whatever
  the identifier is and whether or not a host keyword occurs in the name too.
\<close>

theorem is_ai_related_three_states:
  "is_ai_related nm bid \<in> {(True, False), (False, True), (False, False)}
   \<and> ((\<exists>kw \<in> set AI_APP_KEYWORDS. \<exists>pre post. lower nm = pre @ kw @ post)
        \<longrightarrow> is_ai_related nm bid = (True, False))"
proof
  show "is_ai_related nm bid \<in> {(True, False), (False, True), (False, False)}"
    using is_ai_related_cases [of nm bid] by auto
next
  show "(\<exists>kw \<in> set AI_APP_KEYWORDS. \<exists>pre post. lower nm = pre @ kw @ post)
        \<longrightarrow> is_ai_related nm bid = (True, False)"
  proof
    assume "\<exists>kw \<in> set AI_APP_KEYWORDS. \<exists>pre post. lower nm = pre @ kw @ post"
    then have "\<exists>kw \<in> set AI_APP_KEYWORDS. py_in kw (lower nm)"
      by (simp add: py_in_iff)
    then have "ai_keyword_loop AI_APP_KEYWORDS (lower nm) (if bid \<noteq> [] then lower bid else [])"
      unfolding ai_keyword_loop_iff by blast
    then show "is_ai_related nm bid = (True, False)"
      by (simp add: is_ai_related_def Let_def)
  qed
qed

theorem is_ai_related_three_states_witness:
  "lower ''Cursor for Visual Studio Code'' = [] @ ''cursor'' @ '' for visual studio code''
   \<and> py_in ''visual studio code'' (lower ''Cursor for Visual Studio Code'')
   \<and> is_ai_related ''Cursor for Visual Studio Code'' ''com.example.editor'' = (True, False)"
proof -
  have l: "lower ''Cursor for Visual Studio Code'' = [] @ ''cursor'' @ '' for visual studio code''"
    by code_simp
  have h: "py_in ''visual studio code'' (lower ''Cursor for Visual Studio Code'')"
    by code_simp
  have k: "''cursor'' \<in> set AI_APP_KEYWORDS"
    by (simp add: AI_APP_KEYWORDS_def)
  from k l have
    "\<exists>kw \<in> set AI_APP_KEYWORDS. \<exists>pre post. lower ''Cursor for Visual Studio Code'' = pre @ kw @ post"
    by blast
  with is_ai_related_three_states [of "''Cursor for Visual Studio Code''" "''com.example.editor''"]
  have "is_ai_related ''Cursor for Visual Studio Code'' ''com.example.editor'' = (True, False)"
    by blast
  with l h show ?thesis by blast
qed

section \<open>Properties of \<open>generate_app_id\<close>\<close>

text \<open>
  C4, as stated, fails: a name whose only alphanumeric character lies outside ASCII,
  here the one-letter name U+00E9 (e with acute accent), gives the empty string.
\<close>

theorem generate_app_id_non_ascii_letter:
  "list_ex isalnum [CHR 0xE9] \<and> generate_app_id [CHR 0xE9] = []"
  by code_simp

text \<open>
  C4, amended. For every name containing at least one ASCII letter or digit,
  \<open>generate_app_id\<close> returns a non-empty string of lower-case ASCII letters, digits
  and hyphens, with no hyphen at its start or end and no two hyphens in a row.
\<close>

theorem generate_app_id_ascii_alnum:
  assumes "\<exists>c \<in> set nm. is_ascii_alnum c"
  shows "generate_app_id nm \<noteq> []
    \<and> (\<forall>c \<in> set (generate_app_id nm). is_ascii_lower c \<or> is_ascii_digit c \<or> c = CHR ''-'')
    \<and> hd (generate_app_id nm) \<noteq> CHR ''-''
    \<and> last (generate_app_id nm) \<noteq> CHR ''-''
    \<and> successively (\<lambda>a b. \<not> (a = CHR ''-'' \<and> b = CHR ''-'')) (generate_app_id nm)"
proof -
  let ?h = "\<lambda>c. c = CHR ''-''"
  let ?r = "re_sub_runs (lower nm)"
  have g: "generate_app_id nm = strip_chars ?h ?r"
    by (simp add: generate_app_id_def)
  from assms obtain c where c: "c \<in> set nm" "is_ascii_alnum c" by blast
  then have l: "lower_char c \<in> set (lower nm)" "in_az09 (lower_char c)"
    by (simp_all add: lower_def lower_char_ascii_alnum)
  then have "lower_char c \<in> set ?r" by (rule re_sub_runs_keeps)
  moreover have "\<not> ?h (lower_char c)" using l(2) hyphen_not_az09 by auto
  ultimately have "lower_char c \<in> set (strip_chars ?h ?r)" by (rule strip_chars_keeps)
  then have ne: "strip_chars ?h ?r \<noteq> []" by auto
  have chars: "\<forall>c \<in> set (strip_chars ?h ?r). is_ascii_lower c \<or> is_ascii_digit c \<or> c = CHR ''-''"
    using strip_chars_set [of ?h ?r] re_sub_runs_chars [of _ "lower nm"]
    by (auto simp: in_az09_def)
  show ?thesis
    unfolding g
    using ne chars strip_chars_hd [OF ne] strip_chars_last [OF ne]
      strip_chars_successively [OF re_sub_runs_no_double, of ?h "lower nm"]
    by simp
qed

theorem generate_app_id_ascii_alnum_witness:
  "is_ascii_alnum (CHR ''V'')
   \<and> generate_app_id ''Visual  Studio-Code!'' = ''visual-studio-code''
   \<and> generate_app_id ''Visual  Studio-Code!'' \<noteq> []
   \<and> list_all (\<lambda>c. is_ascii_lower c \<or> is_ascii_digit c \<or> c = CHR ''-'')
        (generate_app_id ''Visual  Studio-Code!'')
   \<and> hd (generate_app_id ''Visual  Studio-Code!'') \<noteq> CHR ''-''
   \<and> last (generate_app_id ''Visual  Studio-Code!'') \<noteq> CHR ''-''
   \<and> successively (\<lambda>a b. \<not> (a = CHR ''-'' \<and> b = CHR ''-''))
        (generate_app_id ''Visual  Studio-Code!'')"
proof -
  have v: "is_ascii_alnum (CHR ''V'')"
    by (simp add: is_ascii_alnum_def is_ascii_upper_def code_def)
  then have "\<exists>c \<in> set ''Visual  Studio-Code!''. is_ascii_alnum c" by simp
  from generate_app_id_ascii_alnum [OF this]
  have "generate_app_id ''Visual  Studio-Code!'' \<noteq> []
    \<and> list_all (\<lambda>c. is_ascii_lower c \<or> is_ascii_digit c \<or> c = CHR ''-'')
         (generate_app_id ''Visual  Studio-Code!'')
    \<and> hd (generate_app_id ''Visual  Studio-Code!'') \<noteq> CHR ''-''
    \<and> last (generate_app_id ''Visual  Studio-Code!'') \<noteq> CHR ''-''
    \<and> successively (\<lambda>a b. \<not> (a = CHR ''-'' \<and> b = CHR ''-''))
         (generate_app_id ''Visual  Studio-Code!'')"
    by (simp only: list_all_iff) blast
  moreover have "generate_app_id ''Visual  Studio-Code!'' = ''visual-studio-code''"
    by code_simp
  ultimately show ?thesis using v by blast
qed

text \<open>
  C10. \<open>generate_app_id\<close> is defined on every string, with no failing operation in
  it: each result consists of the characters \<open>a\<close>-\<open>z\<close>, \<open>0\<close>-\<open>9\<close> and the hyphen.
  For a non-empty name of ASCII characters none of which is a letter or a digit the
  result is the empty string.
\<close>

theorem generate_app_id_no_alnum:
  "(\<forall>c \<in> set (generate_app_id nm). in_az09 c \<or> c = CHR ''-'')
   \<and> (nm \<noteq> [] \<longrightarrow> (\<forall>c \<in> set nm. is_ascii c \<and> \<not> is_ascii_alnum c)
        \<longrightarrow> generate_app_id nm = [])"
proof (intro conjI impI)
  show "\<forall>c \<in> set (generate_app_id nm). in_az09 c \<or> c = CHR ''-''"
    using generate_app_id_chars by blast
next
  assume ne: "nm \<noteq> []" and a: "\<forall>c \<in> set nm. is_ascii c \<and> \<not> is_ascii_alnum c"
  have "\<forall>c \<in> set (lower nm). \<not> in_az09 c"
    using a by (auto simp: lower_def lower_char_not_alnum)
  moreover have "lower nm \<noteq> []" using ne by (simp add: lower_def)
  ultimately have "re_sub_runs (lower nm) = ''-''" by (rule re_sub_runs_no_az09)
  then show "generate_app_id nm = []" by (simp add: generate_app_id_def strip_chars_def)
qed

theorem generate_app_id_no_alnum_witness:
  "'' -- (!?) _. '' \<noteq> []
   \<and> list_all (\<lambda>c. is_ascii c \<and> \<not> is_ascii_alnum c) '' -- (!?) _. ''
   \<and> generate_app_id '' -- (!?) _. '' = []"
proof -
  have ne: "'' -- (!?) _. '' \<noteq> []" by simp
  have a: "list_all (\<lambda>c. is_ascii c \<and> \<not> is_ascii_alnum c) '' -- (!?) _. ''"
    by (simp add: is_ascii_def is_ascii_alnum_def is_ascii_upper_def is_ascii_lower_def
        is_ascii_digit_def code_def)
  then have "\<forall>c \<in> set '' -- (!?) _. ''. is_ascii c \<and> \<not> is_ascii_alnum c"
    by (simp only: list_all_iff)
  with generate_app_id_no_alnum [of "'' -- (!?) _. ''"] ne
  have "generate_app_id '' -- (!?) _. '' = []" by blast
  with ne a show ?thesis by blast
qed

section \<open>Properties of the external tools\<close>

text \<open>
  C1. \<open>_get_team_id\<close> has no handler around \<open>subprocess.run\<close> and never looks at the
  return code: an exception of the run (tool missing, timeout) leaves the function as
  an exception, a run that exits non-zero with a \<open>TeamIdentifier=\<close> line still yields
  that identifier, and the exception of one bundle ends \<open>discover_all\<close>.
\<close>

theorem get_team_id_raises:
  "get_team_id (Raised e) = Inl e
   \<and> get_team_id (Completed 1 [] ''Executable=/Applications/ChatGPT.app\<newline>TeamIdentifier=ABCDE12345'')
       = Inr (Some ''ABCDE12345'')
   \<and> snd (macos_discover_all \<lparr>extract_icons = False, icons_dir = None\<rparr> example_lib
         [example_root [example_bundle ''/Applications/ChatGPT.app'' ''ChatGPT'' ''com.openai.chat''
                          (Raised FileNotFoundError)]]
         Map.empty)
       = Inl FileNotFoundError"
proof (intro conjI)
  show "get_team_id (Raised e) = Inl e" by (simp add: get_team_id_def)
next
  show "get_team_id (Completed 1 [] ''Executable=/Applications/ChatGPT.app\<newline>TeamIdentifier=ABCDE12345'')
       = Inr (Some ''ABCDE12345'')"
    by code_simp
next
  show "snd (macos_discover_all \<lparr>extract_icons = False, icons_dir = None\<rparr> example_lib
         [example_root [example_bundle ''/Applications/ChatGPT.app'' ''ChatGPT'' ''com.openai.chat''
                          (Raised FileNotFoundError)]]
         Map.empty)
       = Inl FileNotFoundError"
    by code_simp
qed

text \<open>When \<open>sips\<close> completes, with any return code, the temporary file is gone.\<close>

lemma convert_icon_completed:
  "fst (convert_icon fs tmp_path (SipsCompleted returncode out)) tmp_path = None"
  by (simp add: convert_icon_def Let_def exists_def unlink_def write_bytes_def)

text \<open>
  C2. When \<open>subprocess.run\<close> raises in the \<open>try\<close> block of \<open>_extract_icon\<close>, the
  function returns \<open>None\<close> and the temporary file it created is still there: the
  \<open>except\<close> clause does not unlink it.
\<close>

theorem convert_icon_exception_keeps_file:
  "fst (convert_icon fs tmp_path (SipsRaised e)) tmp_path = Some []
   \<and> snd (convert_icon fs tmp_path (SipsRaised e)) = None
   \<and> fst (extract_icon
            (Map.empty(''/Applications/ChatGPT.app/Contents/Resources/AppIcon.icns'' \<mapsto> ''icns''))
            (example_bundle ''/Applications/ChatGPT.app'' ''ChatGPT'' ''com.openai.chat''
               (Completed 0 [] []))
            (map_of [(''CFBundleIconFile'', ''AppIcon'')]))
         ''/tmp/tmpicon.png'' = Some []"
proof (intro conjI)
  show "fst (convert_icon fs tmp_path (SipsRaised e)) tmp_path = Some []"
    by (simp add: convert_icon_def Let_def write_bytes_def)
next
  show "snd (convert_icon fs tmp_path (SipsRaised e)) = None"
    by (simp add: convert_icon_def Let_def)
next
  show "fst (extract_icon
            (Map.empty(''/Applications/ChatGPT.app/Contents/Resources/AppIcon.icns'' \<mapsto> ''icns''))
            (example_bundle ''/Applications/ChatGPT.app'' ''ChatGPT'' ''com.openai.chat''
               (Completed 0 [] []))
            (map_of [(''CFBundleIconFile'', ''AppIcon'')]))
         ''/tmp/tmpicon.png'' = Some []"
    by code_simp
qed

section \<open>Properties of \<open>to_dict\<close>\<close>

lemma truthy_opt_str: "truthy (opt_str v) = (\<not> blank v)"
  by (cases v) (auto simp: opt_str_def blank_def)

lemma any_truthy_signature:
  "list_ex truthy (filter truthy (dict_values (PDict (asdict_signature s)))) = (\<not> signature_empty s)"
  by (auto simp: asdict_signature_def signature_empty_def truthy_opt_str)

lemma truthy_signature: "truthy (PDict (asdict_signature s))"
  by (simp add: asdict_signature_def)

text \<open>The entry of a key is cleared when it holds a signature without a value.\<close>

lemma clear_step:
  "clear_empty_signature key (pre @ (key, opt_signature v) # post) =
     pre @ (key, emitted_signature v) # post"
  if "key \<notin> fst ` set pre" "key \<notin> fst ` set post"
proof -
  let ?d = "pre @ (key, opt_signature v) # post"
  have m: "map_of ?d key = Some (opt_signature v)"
  proof -
    have "map_of pre key = None" using that(1) by (simp add: map_of_eq_None_iff)
    then show ?thesis by (simp add: map_add_def)
  qed
  have set: "dict_set key PNone ?d = pre @ (key, PNone) # post"
  proof -
    have "map (\<lambda>(k', v'). if k' = key then (k', PNone) else (k', v')) xs = xs"
      if "key \<notin> fst ` set xs" for xs :: py_dict
      using that by (induction xs) auto
    with that show ?thesis by (simp add: dict_set_def)
  qed
  have c: "clear_empty_signature key ?d =
      (if truthy (opt_signature v)
          \<and> \<not> list_ex truthy (filter truthy (dict_values (opt_signature v)))
       then pre @ (key, PNone) # post else ?d)"
    unfolding clear_empty_signature_def m set by simp
  show ?thesis
  proof (cases v)
    case None
    then show ?thesis
      unfolding c by (simp add: opt_signature_def emitted_signature_def)
  next
    case (Some s)
    have "opt_signature v = PDict (asdict_signature s)"
      using Some by (simp add: opt_signature_def)
    then show ?thesis
      unfolding c using Some
      by (simp add: emitted_signature_def truthy_signature any_truthy_signature
          del: truthy.simps dict_values.simps)
  qed
qed

lemma clear_macos:
  "clear_empty_signature ''macos'' (asdict a) =
     [(''app_id'', PStr (app_id a)),
      (''name'', PStr (name a)),
      (''vendor'', opt_str (vendor a)),
      (''category'', PStr (category a)),
      (''path'', PStr (path a))] @
      (''macos'', emitted_signature (macos a)) #
     [(''windows'', opt_signature (windows a)),
      (''linux'', opt_signature (linux a)),
      (''icon_path'', opt_str (icon_path a)),
      (''icon_base64'', opt_str (icon_base64 a)),
      (''is_ai_app'', PBool (is_ai_app a)),
      (''is_ai_host'', PBool (is_ai_host a)),
      (''discovered_at'', PStr (discovered_at a)),
      (''machine_id'', PStr (machine_id a))]"
proof -
  have "asdict a =
     [(''app_id'', PStr (app_id a)),
      (''name'', PStr (name a)),
      (''vendor'', opt_str (vendor a)),
      (''category'', PStr (category a)),
      (''path'', PStr (path a))] @
      (''macos'', opt_signature (macos a)) #
     [(''windows'', opt_signature (windows a)),
      (''linux'', opt_signature (linux a)),
      (''icon_path'', opt_str (icon_path a)),
      (''icon_base64'', opt_str (icon_base64 a)),
      (''is_ai_app'', PBool (is_ai_app a)),
      (''is_ai_host'', PBool (is_ai_host a)),
      (''discovered_at'', PStr (discovered_at a)),
      (''machine_id'', PStr (machine_id a))]"
    by (simp add: asdict_def)
  then show ?thesis
    by (simp only: ) (rule clear_step; simp)
qed

lemma clear_all:
  "clear_empty_signature ''linux''
     (clear_empty_signature ''windows'' (clear_empty_signature ''macos'' (asdict a))) = cleaned a"
proof -
  have "clear_empty_signature ''windows'' (clear_empty_signature ''macos'' (asdict a)) =
     [(''app_id'', PStr (app_id a)),
      (''name'', PStr (name a)),
      (''vendor'', opt_str (vendor a)),
      (''category'', PStr (category a)),
      (''path'', PStr (path a)),
      (''macos'', emitted_signature (macos a))] @
      (''windows'', emitted_signature (windows a)) #
     [(''linux'', opt_signature (linux a)),
      (''icon_path'', opt_str (icon_path a)),
      (''icon_base64'', opt_str (icon_base64 a)),
      (''is_ai_app'', PBool (is_ai_app a)),
      (''is_ai_host'', PBool (is_ai_host a)),
      (''discovered_at'', PStr (discovered_at a)),
      (''machine_id'', PStr (machine_id a))]"
    unfolding clear_macos
    using clear_step [of "''windows''"
        "[(''app_id'', PStr (app_id a)),
          (''name'', PStr (name a)),
          (''vendor'', opt_str (vendor a)),
          (''category'', PStr (category a)),
          (''path'', PStr (path a)),
          (''macos'', emitted_signature (macos a))]"
        "[(''linux'', opt_signature (linux a)),
          (''icon_path'', opt_str (icon_path a)),
          (''icon_base64'', opt_str (icon_base64 a)),
          (''is_ai_app'', PBool (is_ai_app a)),
          (''is_ai_host'', PBool (is_ai_host a)),
          (''discovered_at'', PStr (discovered_at a)),
          (''machine_id'', PStr (machine_id a))]" "windows a"]
    by simp
  then show ?thesis
    using clear_step [of "''linux''"
        "[(''app_id'', PStr (app_id a)),
          (''name'', PStr (name a)),
          (''vendor'', opt_str (vendor a)),
          (''category'', PStr (category a)),
          (''path'', PStr (path a)),
          (''macos'', emitted_signature (macos a)),
          (''windows'', emitted_signature (windows a))]"
        "[(''icon_path'', opt_str (icon_path a)),
          (''icon_base64'', opt_str (icon_base64 a)),
          (''is_ai_app'', PBool (is_ai_app a)),
          (''is_ai_host'', PBool (is_ai_host a)),
          (''discovered_at'', PStr (discovered_at a)),
          (''machine_id'', PStr (machine_id a))]" "linux a"]
    by (simp add: cleaned_def)
qed

lemma to_dict_cleaned:
  "to_dict a inc =
     filter (\<lambda>(k, v). v \<noteq> PNone) (if \<not> inc then dict_pop ''icon_base64'' (cleaned a) else cleaned a)"
  by (simp add: to_dict_def Let_def clear_all)

lemma filter_not_none: "list_all (\<lambda>kv. snd kv \<noteq> PNone) (filter (\<lambda>(k, v). v \<noteq> PNone) d)"
  by (induction d) auto

lemma map_of_filter_not_none:
  "map_of (filter (\<lambda>(k, v). v \<noteq> PNone) d) key =
     (if map_of d key = Some PNone then None else map_of d key)"
  if "distinct (map fst d)"
  using that
proof (induction d)
  case Nil
  then show ?case by simp
next
  case (Cons kv d)
  obtain k v where kv: "kv = (k, v)" by (cases kv)
  from Cons.prems kv have "map_of d k = None"
    by (simp add: map_of_eq_None_iff)
  with Cons kv show ?case by auto
qed

lemma map_of_dict_pop: "map_of (dict_pop k d) key = (if key = k then None else map_of d key)"
  by (induction d) (auto simp: dict_pop_def)

lemma distinct_dict_pop: "distinct (map fst d) \<Longrightarrow> distinct (map fst (dict_pop k d))"
  by (induction d) (auto simp: dict_pop_def)

lemma distinct_cleaned: "distinct (map fst (cleaned a))"
  by (simp add: cleaned_def)

lemma map_of_to_dict:
  "map_of (to_dict a inc) key =
     (if \<not> inc \<and> key = ''icon_base64'' then None
      else if map_of (cleaned a) key = Some PNone then None
      else map_of (cleaned a) key)"
proof (cases inc)
  case True
  then have "to_dict a inc = filter (\<lambda>(k, v). v \<noteq> PNone) (cleaned a)"
    by (simp add: to_dict_cleaned)
  then show ?thesis
    using True map_of_filter_not_none [OF distinct_cleaned, of a key] by simp
next
  case False
  then have "to_dict a inc = filter (\<lambda>(k, v). v \<noteq> PNone) (dict_pop ''icon_base64'' (cleaned a))"
    by (simp add: to_dict_cleaned)
  then have "map_of (to_dict a inc) key =
      (if map_of (dict_pop ''icon_base64'' (cleaned a)) key = Some PNone then None
       else map_of (dict_pop ''icon_base64'' (cleaned a)) key)"
    using map_of_filter_not_none [OF distinct_dict_pop [OF distinct_cleaned], of "''icon_base64''" a key]
    by simp
  then show ?thesis
    using False by (simp only: map_of_dict_pop) simp
qed

lemma pick_opt_str:
  "m = Some (opt_str v) \<Longrightarrow> (if m = Some PNone then None else m) = map_option PStr v"
  by (cases v) (simp_all add: opt_str_def)

lemma pick_signature:
  "m = Some (emitted_signature v) \<Longrightarrow> (if m = Some PNone then None else m) = emitted v"
  by (cases v) (simp_all add: emitted_signature_def emitted_def)

lemma cleaned_entries:
  "map_of (cleaned a) ''vendor'' = Some (opt_str (vendor a))"
  "map_of (cleaned a) ''icon_path'' = Some (opt_str (icon_path a))"
  "map_of (cleaned a) ''icon_base64'' = Some (opt_str (icon_base64 a))"
  "map_of (cleaned a) ''macos'' = Some (emitted_signature (macos a))"
  "map_of (cleaned a) ''windows'' = Some (emitted_signature (windows a))"
  "map_of (cleaned a) ''linux'' = Some (emitted_signature (linux a))"
  by (simp_all add: cleaned_def)

text \<open>
  C9, as stated, fails: the signature object of a record keeps its \<open>None\<close> fields
  (\<open>team_id\<close>, \<open>publisher\<close>) and its empty fields, and an empty top-level string
  (\<open>path\<close>) is emitted; only top-level \<open>None\<close> values are filtered out.
\<close>

theorem to_dict_keeps_null_and_empty:
  "to_dict
     \<lparr>app_id = ''cursor'', name = ''Cursor'', vendor = None, category = ''dev_tools'',
      path = [],
      macos = Some \<lparr>bundle_id = Some ''com.cursor.Cursor'', team_id = None,
                     paths = [''/Applications/Cursor.app''], executable_name = Some [],
                     publisher = None, version = Some ''1.0''\<rparr>,
      windows = None, linux = None, icon_path = None, icon_base64 = None,
      is_ai_app = True, is_ai_host = False,
      discovered_at = ''2024-01-01T00:00:00'', machine_id = ''0123456789ab''\<rparr> True
   = [(''app_id'', PStr ''cursor''), (''name'', PStr ''Cursor''),
      (''category'', PStr ''dev_tools''), (''path'', PStr []),
      (''macos'',
       PDict [(''bundle_id'', PStr ''com.cursor.Cursor''), (''team_id'', PNone),
              (''paths'', PList [''/Applications/Cursor.app'']),
              (''executable_name'', PStr []), (''publisher'', PNone),
              (''version'', PStr ''1.0'')]),
      (''is_ai_app'', PBool True), (''is_ai_host'', PBool False),
      (''discovered_at'', PStr ''2024-01-01T00:00:00''),
      (''machine_id'', PStr ''0123456789ab'')]
   \<and> \<not> no_null_or_empty
      (PDict (to_dict
         \<lparr>app_id = ''cursor'', name = ''Cursor'', vendor = None, category = ''dev_tools'',
          path = [],
          macos = Some \<lparr>bundle_id = Some ''com.cursor.Cursor'', team_id = None,
                         paths = [''/Applications/Cursor.app''], executable_name = Some [],
                         publisher = None, version = Some ''1.0''\<rparr>,
          windows = None, linux = None, icon_path = None, icon_base64 = None,
          is_ai_app = True, is_ai_host = False,
          discovered_at = ''2024-01-01T00:00:00'', machine_id = ''0123456789ab''\<rparr> True))"
  by code_simp

text \<open>
  C9, amended. In the structured document no top-level key has the value \<open>None\<close>:
  \<open>vendor\<close>, \<open>icon_path\<close> and \<open>icon_base64\<close> appear exactly when they are set, a
  platform signature appears exactly when it is present and one of its fields has a
  value, and in the form without icon the key \<open>icon_base64\<close> never appears.
\<close>

theorem to_dict_omits_none:
  "list_all (\<lambda>kv. snd kv \<noteq> PNone) (to_dict a inc)
   \<and> map_of (to_dict a inc) ''vendor'' = map_option PStr (vendor a)
   \<and> map_of (to_dict a inc) ''icon_path'' = map_option PStr (icon_path a)
   \<and> map_of (to_dict a inc) ''macos'' = emitted (macos a)
   \<and> map_of (to_dict a inc) ''windows'' = emitted (windows a)
   \<and> map_of (to_dict a inc) ''linux'' = emitted (linux a)
   \<and> map_of (to_dict a inc) ''icon_base64'' =
        (if inc then map_option PStr (icon_base64 a) else None)"
proof (intro conjI)
  show "list_all (\<lambda>kv. snd kv \<noteq> PNone) (to_dict a inc)"
    by (simp only: to_dict_cleaned filter_not_none)
next
  show "map_of (to_dict a inc) ''vendor'' = map_option PStr (vendor a)"
    using pick_opt_str [OF cleaned_entries(1)] by (simp add: map_of_to_dict)
next
  show "map_of (to_dict a inc) ''icon_path'' = map_option PStr (icon_path a)"
    using pick_opt_str [OF cleaned_entries(2)] by (simp add: map_of_to_dict)
next
  show "map_of (to_dict a inc) ''macos'' = emitted (macos a)"
    using pick_signature [OF cleaned_entries(4)] by (simp add: map_of_to_dict)
next
  show "map_of (to_dict a inc) ''windows'' = emitted (windows a)"
    using pick_signature [OF cleaned_entries(5)] by (simp add: map_of_to_dict)
next
  show "map_of (to_dict a inc) ''linux'' = emitted (linux a)"
    using pick_signature [OF cleaned_entries(6)] by (simp add: map_of_to_dict)
next
  show "map_of (to_dict a inc) ''icon_base64'' =
        (if inc then map_option PStr (icon_base64 a) else None)"
    using pick_opt_str [OF cleaned_entries(3)] by (simp add: map_of_to_dict)
qed

section \<open>Properties of the desktop-entry parser\<close>

lemma strip_chars_id: "\<forall>c \<in> set s. \<not> P c \<Longrightarrow> strip_chars P s = s"
proof -
  assume a: "\<forall>c \<in> set s. \<not> P c"
  have d: "dropWhile P xs = xs" if "\<forall>c \<in> set xs. \<not> P c" for xs
    using that by (cases xs) auto
  have "dropWhile P s = s" using a by (rule d)
  moreover have "dropWhile P (rev s) = rev s" using a by (intro d) simp
  ultimately show ?thesis by (simp add: strip_chars_def)
qed

lemma split_ws_blank: "dropWhile isspace v = [] \<Longrightarrow> split_ws v = []"
  by (subst split_ws.simps) (simp add: Let_def)

lemma split_ws_word:
  "dropWhile isspace v \<noteq> [] \<Longrightarrow>
   split_ws v =
     takeWhile (\<lambda>c. \<not> isspace c) (dropWhile isspace v)
       # split_ws (dropWhile (\<lambda>c. \<not> isspace c) (dropWhile isspace v))"
  by (subst split_ws.simps) (simp only: Let_def if_False)

lemma hd_split_ws:
  "split_ws v \<noteq> [] \<Longrightarrow>
   hd (split_ws v) = takeWhile (\<lambda>c. \<not> isspace c) (dropWhile isspace v)"
proof (cases "dropWhile isspace v = []")
  case True
  assume "split_ws v \<noteq> []"
  with split_ws_blank [OF True] show ?thesis by simp
next
  case False
  show ?thesis by (simp only: split_ws_word [OF False] list.sel)
qed

lemma strip_hd_split_ws: "split_ws v \<noteq> [] \<Longrightarrow> strip (hd (split_ws v)) = hd (split_ws v)"
proof -
  let ?w = "takeWhile (\<lambda>c. \<not> isspace c) (dropWhile isspace v)"
  assume "split_ws v \<noteq> []"
  then have h: "hd (split_ws v) = ?w"
    by (rule hd_split_ws)
  have "\<forall>c \<in> set ?w. \<not> isspace c"
    by (auto dest: set_takeWhileD)
  then have "strip_chars isspace ?w = ?w"
    by (rule strip_chars_id)
  then show ?thesis
    by (simp only: strip_def h)
qed

lemma py_index_0: "py_index xs 0 = Inr w \<Longrightarrow> xs \<noteq> [] \<and> w = hd xs"
  by (cases xs) (auto simp: py_index_def)

lemma name_value:
  assumes "startswith line ''Name=''"
  shows "py_index (split_once CHR ''='' line) 1 = Inr (line_value line)"
proof -
  from assms obtain post where "line = ''Name='' @ post"
    using startswith_iff by blast
  then show ?thesis
    by (simp add: split_once_def py_index_def line_value_def)
qed

lemma exec_value:
  assumes "startswith line ''Exec=''"
  shows "py_index (split_once CHR ''='' line) 1 = Inr (line_value line)"
proof -
  from assms obtain post where "line = ''Exec='' @ post"
    using startswith_iff by blast
  then show ?thesis
    by (simp add: split_once_def py_index_def line_value_def)
qed

lemma name_not_exec: "startswith line ''Name='' \<Longrightarrow> \<not> startswith line ''Exec=''"
  by (auto simp: startswith_iff)

lemma desktop_lines_name:
  "startswith line ''Name='' \<Longrightarrow>
   desktop_lines (line # rest) nm ex = desktop_lines rest (Some (strip (line_value line))) ex"
  by (simp add: name_value [unfolded One_nat_def])

lemma desktop_lines_exec:
  "\<not> startswith line ''Name='' \<Longrightarrow> startswith line ''Exec='' \<Longrightarrow>
   desktop_lines (line # rest) nm ex =
     (case py_index (split_ws (line_value line)) 0 of
        Inl e \<Rightarrow> Inl e
      | Inr w \<Rightarrow> desktop_lines rest nm (Some (strip w)))"
  by (simp add: exec_value [unfolded One_nat_def])

lemma desktop_lines_other:
  "\<not> startswith line ''Name='' \<Longrightarrow> \<not> startswith line ''Exec='' \<Longrightarrow>
   desktop_lines (line # rest) nm ex = desktop_lines rest nm ex"
  by simp

lemma desktop_lines_result_name:
  assumes IH: "\<And>nm ex. desktop_lines rest nm ex = Inr (nm', ex') \<Longrightarrow>
   nm' = (if filter (\<lambda>l. startswith l ''Name='') rest = [] then nm
          else Some (strip (line_value (last (filter (\<lambda>l. startswith l ''Name='') rest)))))
   \<and> ex' = (if filter (\<lambda>l. startswith l ''Exec='') rest = [] then ex
            else Some (hd (split_ws (line_value (last (filter (\<lambda>l. startswith l ''Exec='') rest))))))"
    and prems: "desktop_lines (line # rest) nm ex = Inr (nm', ex')"
    and n: "startswith line ''Name=''"
  shows "
   nm' = (if filter (\<lambda>l. startswith l ''Name='') (line # rest) = [] then nm
          else Some (strip (line_value (last (filter (\<lambda>l. startswith l ''Name='') (line # rest))))))
   \<and> ex' = (if filter (\<lambda>l. startswith l ''Exec='') (line # rest) = [] then ex
            else Some (hd (split_ws (line_value (last (filter (\<lambda>l. startswith l ''Exec='') (line # rest)))))))"

proof -
  let ?N = "\<lambda>l. startswith l ''Name=''"
  let ?E = "\<lambda>l. startswith l ''Exec=''"
  from n have ne: "\<not> ?E line" by (rule name_not_exec)
  from prems have "desktop_lines rest (Some (strip (line_value line))) ex = Inr (nm', ex')"
    by (simp only: desktop_lines_name [OF n])
  note ih = IH [OF this]
  have f: "filter ?N (line # rest) = line # filter ?N rest" "filter ?E (line # rest) = filter ?E rest"
    using n ne by simp_all
  show ?thesis
    unfolding f using ih by (cases "filter ?N rest = []") simp_all
qed
lemma desktop_lines_result_exec:
  assumes IH: "\<And>nm ex. desktop_lines rest nm ex = Inr (nm', ex') \<Longrightarrow>
   nm' = (if filter (\<lambda>l. startswith l ''Name='') rest = [] then nm
          else Some (strip (line_value (last (filter (\<lambda>l. startswith l ''Name='') rest)))))
   \<and> ex' = (if filter (\<lambda>l. startswith l ''Exec='') rest = [] then ex
            else Some (hd (split_ws (line_value (last (filter (\<lambda>l. startswith l ''Exec='') rest))))))"
    and prems: "desktop_lines (line # rest) nm ex = Inr (nm', ex')"
    and e: "\<not> startswith line ''Name=''" "startswith line ''Exec=''"
  shows "
   nm' = (if filter (\<lambda>l. startswith l ''Name='') (line # rest) = [] then nm
          else Some (strip (line_value (last (filter (\<lambda>l. startswith l ''Name='') (line # rest))))))
   \<and> ex' = (if filter (\<lambda>l. startswith l ''Exec='') (line # rest) = [] then ex
            else Some (hd (split_ws (line_value (last (filter (\<lambda>l. startswith l ''Exec='') (line # rest)))))))"

proof -
  let ?N = "\<lambda>l. startswith l ''Name=''"
  let ?E = "\<lambda>l. startswith l ''Exec=''"
  from prems have c: "(case py_index (split_ws (line_value line)) 0 of
        Inl e \<Rightarrow> Inl e
      | Inr w \<Rightarrow> desktop_lines rest nm (Some (strip w))) = Inr (nm', ex')"
    by (simp only: desktop_lines_exec [OF e])
  then obtain w where
    w: "py_index (split_ws (line_value line)) 0 = Inr w"
    and r: "desktop_lines rest nm (Some (strip w)) = Inr (nm', ex')"
    by (cases "py_index (split_ws (line_value line)) 0") simp_all
  note w0 = py_index_0 [OF w]
  have "strip (hd (split_ws (line_value line))) = hd (split_ws (line_value line))"
    using w0 [THEN conjunct1] by (rule strip_hd_split_ws)
  then have s: "strip w = hd (split_ws (line_value line))"
    by (simp only: w0 [THEN conjunct2])
  note ih = IH [OF r]
  have f: "filter ?N (line # rest) = filter ?N rest" "filter ?E (line # rest) = line # filter ?E rest"
    using e by simp_all
  show ?thesis
  proof (cases "filter ?E rest = []")
    case True
    with ih show ?thesis unfolding f by (simp add: s)
  next
    case False
    with ih show ?thesis unfolding f by simp
  qed
qed

lemma desktop_lines_result_other:
  assumes IH: "\<And>nm ex. desktop_lines rest nm ex = Inr (nm', ex') \<Longrightarrow>
   nm' = (if filter (\<lambda>l. startswith l ''Name='') rest = [] then nm
          else Some (strip (line_value (last (filter (\<lambda>l. startswith l ''Name='') rest)))))
   \<and> ex' = (if filter (\<lambda>l. startswith l ''Exec='') rest = [] then ex
            else Some (hd (split_ws (line_value (last (filter (\<lambda>l. startswith l ''Exec='') rest))))))"
    and prems: "desktop_lines (line # rest) nm ex = Inr (nm', ex')"
    and o: "\<not> startswith line ''Name=''" "\<not> startswith line ''Exec=''"
  shows "
   nm' = (if filter (\<lambda>l. startswith l ''Name='') (line # rest) = [] then nm
          else Some (strip (line_value (last (filter (\<lambda>l. startswith l ''Name='') (line # rest))))))
   \<and> ex' = (if filter (\<lambda>l. startswith l ''Exec='') (line # rest) = [] then ex
            else Some (hd (split_ws (line_value (last (filter (\<lambda>l. startswith l ''Exec='') (line # rest)))))))"

proof -
  let ?N = "\<lambda>l. startswith l ''Name=''"
  let ?E = "\<lambda>l. startswith l ''Exec=''"
  from prems have "desktop_lines rest nm ex = Inr (nm', ex')"
    by (simp only: desktop_lines_other [OF o])
  note ih = IH [OF this]
  have f: "filter ?N (line # rest) = filter ?N rest" "filter ?E (line # rest) = filter ?E rest"
    using o by simp_all
  show ?thesis
    unfolding f using ih by simp
qed

lemma desktop_lines_result:
  "desktop_lines ls nm ex = Inr (nm', ex') \<Longrightarrow>
   nm' = (if filter (\<lambda>l. startswith l ''Name='') ls = [] then nm
          else Some (strip (line_value (last (filter (\<lambda>l. startswith l ''Name='') ls)))))
   \<and> ex' = (if filter (\<lambda>l. startswith l ''Exec='') ls = [] then ex
            else Some (hd (split_ws (line_value (last (filter (\<lambda>l. startswith l ''Exec='') ls))))))"
proof (induction ls arbitrary: nm ex)
  case Nil
  then show ?case by simp
next
  case (Cons line rest)
  consider (n) "startswith line ''Name=''"
    | (e) "\<not> startswith line ''Name=''" "startswith line ''Exec=''"
    | (o) "\<not> startswith line ''Name=''" "\<not> startswith line ''Exec=''"
    by blast
  then show ?case
  proof cases
    case n
    from Cons.IH Cons.prems n show ?thesis by (rule desktop_lines_result_name)
  next
    case e
    from Cons.IH Cons.prems e show ?thesis by (rule desktop_lines_result_exec)
  next
    case o
    from Cons.IH Cons.prems o show ?thesis by (rule desktop_lines_result_other)
  qed
qed

lemma parse_desktop_file_Some:
  assumes rd: "read_text d = ReadText content"
    and p: "parse_desktop_file lib d = Inr (Some app)"
  obtains nm ex where
    "desktop_lines (split_on CHR ''\<newline>'' content) None None = Inr (Some nm, ex)"
    "nm \<noteq> []" "name app = nm" "path app = (case ex of None \<Rightarrow> [] | Some q \<Rightarrow> q)"
proof (cases "desktop_lines (split_on CHR ''\<newline>'' content) None None")
  case (Inl e)
  with rd p show ?thesis by (simp add: parse_desktop_file_def)
next
  case (Inr r)
  obtain nmo ex where r: "r = (nmo, ex)" by (cases r)
  show ?thesis
  proof (cases nmo)
    case None
    with rd p Inr r show ?thesis by (simp add: parse_desktop_file_def)
  next
    case (Some nm)
    show ?thesis
    proof (cases "nm = []")
      case True
      with rd p Inr r Some show ?thesis by (simp add: parse_desktop_file_def)
    next
      case False
      from rd p Inr r Some False have
        "name app = nm"
        "path app = (if ex \<noteq> None \<and> ex \<noteq> Some [] then (case ex of None \<Rightarrow> [] | Some q \<Rightarrow> q) else [])"
        by (auto simp add: parse_desktop_file_def Let_def case_prod_beta split: if_splits)
      moreover from this(2) have "path app = (case ex of None \<Rightarrow> [] | Some q \<Rightarrow> q)"
        by (cases ex) auto
      ultimately show ?thesis
        using that [of nm ex] Inr r Some False by simp
    qed
  qed
qed

lemma desktop_lines_returns:
  "\<forall>line \<in> set (filter (\<lambda>l. startswith l ''Exec='') ls). split_ws (line_value line) \<noteq> [] \<Longrightarrow>
   \<exists>r. desktop_lines ls nm ex = Inr r"
proof (induction ls arbitrary: nm ex)
  case Nil
  then show ?case by simp
next
  case (Cons line rest)
  have ih: "\<exists>r. desktop_lines rest nm' ex' = Inr r" for nm' ex'
    using Cons.prems by (intro Cons.IH) simp
  consider (n) "startswith line ''Name=''"
    | (e) "\<not> startswith line ''Name=''" "startswith line ''Exec=''"
    | (o) "\<not> startswith line ''Name=''" "\<not> startswith line ''Exec=''"
    by blast
  then show ?case
  proof cases
    case n
    show ?thesis by (simp only: desktop_lines_name [OF n] ih)
  next
    case e
    with Cons.prems have "split_ws (line_value line) \<noteq> []" by simp
    then have "py_index (split_ws (line_value line)) 0 = Inr (hd (split_ws (line_value line)))"
      by (cases "split_ws (line_value line)") (simp_all add: py_index_def)
    then show ?thesis
      using ih by (simp only: desktop_lines_exec [OF e] sum.case)
  next
    case o
    show ?thesis by (simp only: desktop_lines_other [OF o] ih)
  qed
qed

lemma parse_desktop_file_skip:
  assumes "read_text d = ReadText content"
    and "desktop_lines (split_on CHR ''\<newline>'' content) None None = Inr (nmo, ex)"
    and "nmo = None \<or> nmo = Some []"
  shows "parse_desktop_file lib d = Inr None"
  using assms by (auto simp: parse_desktop_file_def)

lemma parse_desktop_file_record:
  assumes "read_text d = ReadText content"
    and "desktop_lines (split_on CHR ''\<newline>'' content) None None = Inr (Some nm, ex)"
    and "nm \<noteq> []"
  shows "\<exists>a. parse_desktop_file lib d = Inr (Some a) \<and> name a = nm
             \<and> path a = (case ex of None \<Rightarrow> [] | Some q \<Rightarrow> q)"
proof -
  obtain ai host where c: "is_ai_related nm [] = (ai, host)"
    by (cases "is_ai_related nm []")
  show ?thesis
  proof (cases ex)
    case None
    with assms c show ?thesis by (simp add: parse_desktop_file_def Let_def)
  next
    case (Some q)
    with assms c show ?thesis by (cases "q = []") (simp_all add: parse_desktop_file_def Let_def)
  qed
qed

text \<open>
  C8, as stated, fails: the loop over the lines assigns \<open>name\<close> and \<open>exec_path\<close> at
  every \<open>Name=\<close> and \<open>Exec=\<close> line and never stops, so with repeated keys the record
  carries the values of the last lines, not of the first.
\<close>

theorem parse_desktop_file_repeated_keys:
  "parse_desktop_file example_lib
     \<lparr>read_text = ReadText ''[Desktop Entry]\<newline>Name=First\<newline>Exec=first --flag\<newline>Name=Second\<newline>Exec=second %F'',
      entry_clock = ''2024-01-01T00:00:00''\<rparr>
   = Inr (Some
       \<lparr>app_id = ''second'', name = ''Second'', vendor = None, category = ''other'',
        path = ''second'', macos = None, windows = None,
        linux = Some \<lparr>bundle_id = None, team_id = None, paths = [''second''],
                       executable_name = Some ''second'', publisher = None, version = None\<rparr>,
        icon_path = None, icon_base64 = None, is_ai_app = False, is_ai_host = False,
        discovered_at = ''2024-01-01T00:00:00'', machine_id = ''0123456789ab''\<rparr>)
   \<and> hd (key_lines ''Name=''
        ''[Desktop Entry]\<newline>Name=First\<newline>Exec=first --flag\<newline>Name=Second\<newline>Exec=second %F'')
       = ''Name=First''
   \<and> hd (key_lines ''Exec=''
        ''[Desktop Entry]\<newline>Name=First\<newline>Exec=first --flag\<newline>Name=Second\<newline>Exec=second %F'')
       = ''Exec=first --flag''"
  by code_simp

text \<open>
  C8, amended. When parsing a desktop-entry file gives a record, the file has a
  \<open>Name=\<close> line, the name of the record is the stripped value of the last \<open>Name=\<close>
  line and its path is the first word of the value of the last \<open>Exec=\<close> line (empty
  without such a line); a file without a \<open>Name=\<close> line gives no record. When every
  \<open>Exec=\<close> line of the file has a word in its value, parsing returns: it skips the
  file (returns \<open>None\<close>) when there is no \<open>Name=\<close> line or the value of the last one
  is blank, and otherwise gives a record with that name and that path.
\<close>

theorem parse_desktop_file_last_occurrence:
  assumes "read_text d = ReadText content"
  shows "(parse_desktop_file lib d = Inr (Some app) \<longrightarrow>
            key_lines ''Name='' content \<noteq> []
            \<and> name app = strip (line_value (last (key_lines ''Name='' content)))
            \<and> path app =
                (if key_lines ''Exec='' content = [] then []
                 else hd (split_ws (line_value (last (key_lines ''Exec='' content))))))
         \<and> (key_lines ''Name='' content = [] \<longrightarrow> parse_desktop_file lib d \<noteq> Inr (Some app))
         \<and> ((\<forall>line \<in> set (key_lines ''Exec='' content). split_ws (line_value line) \<noteq> []) \<longrightarrow>
              (if key_lines ''Name='' content = []
                  \<or> strip (line_value (last (key_lines ''Name='' content))) = []
               then parse_desktop_file lib d = Inr None
               else \<exists>a. parse_desktop_file lib d = Inr (Some a)
                      \<and> name a = strip (line_value (last (key_lines ''Name='' content)))
                      \<and> path a =
                          (if key_lines ''Exec='' content = [] then []
                           else hd (split_ws (line_value (last (key_lines ''Exec='' content)))))))"
proof -
  let ?ls = "split_on CHR ''\<newline>'' content"
  let ?nv = "strip (line_value (last (key_lines ''Name='' content)))"
  let ?ev = "if key_lines ''Exec='' content = [] then []
             else hd (split_ws (line_value (last (key_lines ''Exec='' content))))"
  have main: "key_lines ''Name='' content \<noteq> [] \<and> name app = ?nv \<and> path app = ?ev"
    if p: "parse_desktop_file lib d = Inr (Some app)"
  proof -
    from assms p obtain nm ex where
      l: "desktop_lines ?ls None None = Inr (Some nm, ex)"
      and a: "name app = nm" and b: "path app = (case ex of None \<Rightarrow> [] | Some q \<Rightarrow> q)"
      by (rule parse_desktop_file_Some)
    note r = desktop_lines_result [OF l]
    from r have k: "key_lines ''Name='' content \<noteq> []"
      unfolding key_lines_def by (metis option.distinct(1))
    with r a have "name app = ?nv"
      unfolding key_lines_def by simp
    moreover from r b have "path app = ?ev"
      unfolding key_lines_def by simp
    ultimately show ?thesis using k by blast
  qed
  have total: "if key_lines ''Name='' content = [] \<or> ?nv = []
               then parse_desktop_file lib d = Inr None
               else \<exists>a. parse_desktop_file lib d = Inr (Some a) \<and> name a = ?nv \<and> path a = ?ev"
    if e: "\<forall>line \<in> set (key_lines ''Exec='' content). split_ws (line_value line) \<noteq> []"
  proof -
    from e obtain r where "desktop_lines ?ls None None = Inr r"
      unfolding key_lines_def using desktop_lines_returns by blast
    then obtain nmo ex where l: "desktop_lines ?ls None None = Inr (nmo, ex)"
      by (cases r) simp
    note r = desktop_lines_result [OF l]
    from r have nmo: "nmo = (if key_lines ''Name='' content = [] then None else Some ?nv)"
      unfolding key_lines_def by simp
    from r have ex: "(case ex of None \<Rightarrow> [] | Some q \<Rightarrow> q) = ?ev"
      unfolding key_lines_def by simp
    show ?thesis
    proof (cases "key_lines ''Name='' content = [] \<or> ?nv = []")
      case True
      with nmo have "nmo = None \<or> nmo = Some []" by auto
      with assms l have "parse_desktop_file lib d = Inr None"
        by (rule parse_desktop_file_skip)
      with True show ?thesis by simp
    next
      case False
      with nmo have n: "nmo = Some ?nv" "?nv \<noteq> []" by auto
      from l n(1) have "desktop_lines ?ls None None = Inr (Some ?nv, ex)" by simp
      with assms have "\<exists>a. parse_desktop_file lib d = Inr (Some a) \<and> name a = ?nv
             \<and> path a = (case ex of None \<Rightarrow> [] | Some q \<Rightarrow> q)"
        using n(2) by (rule parse_desktop_file_record)
      with False ex show ?thesis by simp
    qed
  qed
  from main total show ?thesis by blast
qed

theorem parse_desktop_file_last_occurrence_witness:
  "read_text \<lparr>read_text = ReadText ''Name=First\<newline>Exec=first --flag\<newline>Name= Second \<newline>Exec=second %F'',
               entry_clock = ''2024-01-01T00:00:00''\<rparr>
     = ReadText ''Name=First\<newline>Exec=first --flag\<newline>Name= Second \<newline>Exec=second %F''
   \<and> list_all (\<lambda>line. split_ws (line_value line) \<noteq> [])
        (key_lines ''Exec=''
           ''Name=First\<newline>Exec=first --flag\<newline>Name= Second \<newline>Exec=second %F'')
   \<and> parse_desktop_file example_lib
        \<lparr>read_text = ReadText ''Name=First\<newline>Exec=first --flag\<newline>Name= Second \<newline>Exec=second %F'',
         entry_clock = ''2024-01-01T00:00:00''\<rparr>
       = Inr (Some
           \<lparr>app_id = ''second'', name = ''Second'', vendor = None, category = ''other'',
            path = ''second'', macos = None, windows = None,
            linux = Some \<lparr>bundle_id = None, team_id = None, paths = [''second''],
                           executable_name = Some ''second'', publisher = None, version = None\<rparr>,
            icon_path = None, icon_base64 = None, is_ai_app = False, is_ai_host = False,
            discovered_at = ''2024-01-01T00:00:00'', machine_id = ''0123456789ab''\<rparr>)
   \<and> ''Second'' = strip (line_value (last (key_lines ''Name=''
          ''Name=First\<newline>Exec=first --flag\<newline>Name= Second \<newline>Exec=second %F'')))
   \<and> ''second'' = hd (split_ws (line_value (last (key_lines ''Exec=''
          ''Name=First\<newline>Exec=first --flag\<newline>Name= Second \<newline>Exec=second %F''))))
   \<and> key_lines ''Name='' ''[Desktop Entry]\<newline>Exec=/usr/bin/tool --run'' = []
   \<and> list_all (\<lambda>line. split_ws (line_value line) \<noteq> [])
        (key_lines ''Exec='' ''[Desktop Entry]\<newline>Exec=/usr/bin/tool --run'')
   \<and> parse_desktop_file example_lib
        \<lparr>read_text = ReadText ''[Desktop Entry]\<newline>Exec=/usr/bin/tool --run'',
         entry_clock = ''2024-01-01T00:00:00''\<rparr>
       = Inr None"
proof -
  let ?c = "''Name=First\<newline>Exec=first --flag\<newline>Name= Second \<newline>Exec=second %F''"
  let ?d = "\<lparr>read_text = ReadText ?c, entry_clock = ''2024-01-01T00:00:00''\<rparr>"
  let ?a = "\<lparr>app_id = ''second'', name = ''Second'', vendor = None, category = ''other'',
            path = ''second'', macos = None, windows = None,
            linux = Some \<lparr>bundle_id = None, team_id = None, paths = [''second''],
                           executable_name = Some ''second'', publisher = None, version = None\<rparr>,
            icon_path = None, icon_base64 = None, is_ai_app = False, is_ai_host = False,
            discovered_at = ''2024-01-01T00:00:00'', machine_id = ''0123456789ab''\<rparr>"
  let ?c2 = "''[Desktop Entry]\<newline>Exec=/usr/bin/tool --run''"
  let ?d2 = "\<lparr>read_text = ReadText ?c2, entry_clock = ''2024-01-01T00:00:00''\<rparr>"
  have r: "read_text ?d = ReadText ?c" by simp
  have r2: "read_text ?d2 = ReadText ?c2" by simp
  have x: "list_all (\<lambda>line. split_ws (line_value line) \<noteq> []) (key_lines ''Exec='' ?c)"
    by code_simp
  have x2: "list_all (\<lambda>line. split_ws (line_value line) \<noteq> []) (key_lines ''Exec='' ?c2)"
    by code_simp
  have n2: "key_lines ''Name='' ?c2 = []" by code_simp
  have p: "parse_desktop_file example_lib ?d = Inr (Some ?a)" by code_simp
  have e: "key_lines ''Exec='' ?c \<noteq> []" by code_simp
  from parse_desktop_file_last_occurrence [OF r, of example_lib ?a] p
  have "name ?a = strip (line_value (last (key_lines ''Name='' ?c)))"
    and "path ?a =
          (if key_lines ''Exec='' ?c = [] then []
           else hd (split_ws (line_value (last (key_lines ''Exec='' ?c)))))"
    by blast+
  with e have v: "''Second'' = strip (line_value (last (key_lines ''Name='' ?c)))"
    "''second'' = hd (split_ws (line_value (last (key_lines ''Exec='' ?c))))"
    by simp_all
  from x2 have "\<forall>line \<in> set (key_lines ''Exec='' ?c2). split_ws (line_value line) \<noteq> []"
    by (simp only: list_all_iff)
  with parse_desktop_file_last_occurrence [OF r2, of example_lib ?a] n2
  have s: "parse_desktop_file example_lib ?d2 = Inr None"
    by (simp only: simp_thms if_True)
  from r x p v n2 x2 s show ?thesis by blast
qed

section \<open>Properties of the macOS collector\<close>

lemma attach_icon_fields:
  "\<exists>ip ib. snd (attach_icon self lib fs b pl app) = app\<lparr>icon_path := ip, icon_base64 := ib\<rparr>"
proof -
  have keep: "app = app\<lparr>icon_path := icon_path app, icon_base64 := icon_base64 app\<rparr>" by simp
  show ?thesis
  proof (cases "extract_icons self")
    case False
    then have "snd (attach_icon self lib fs b pl app) = app" by (simp add: attach_icon_def)
    with keep show ?thesis by metis
  next
    case True
    obtain fs1 icon_data where x: "extract_icon fs b pl = (fs1, icon_data)"
      by (cases "extract_icon fs b pl")
    show ?thesis
    proof (cases icon_data)
      case None
      with True x have "snd (attach_icon self lib fs b pl app) = app" by (simp add: attach_icon_def)
      with keep show ?thesis by metis
    next
      case (Some data)
      show ?thesis
      proof (cases "data = []")
        case e: True
        with True x Some have "snd (attach_icon self lib fs b pl app) = app"
          by (simp add: attach_icon_def)
        with keep show ?thesis by metis
      next
        case ne: False
        show ?thesis
        proof (cases "icons_dir self")
          case None
          with True x Some ne have
            "snd (attach_icon self lib fs b pl app) =
               app\<lparr>icon_path := icon_path app, icon_base64 := Some (b64encode lib data)\<rparr>"
            by (simp add: attach_icon_def)
          then show ?thesis by blast
        next
          case (Some dir)
          with True x \<open>icon_data = Some data\<close> ne have
            "snd (attach_icon self lib fs b pl app) =
               app\<lparr>icon_path := Some (joinpath dir (app_id app @ ''.png'')),
                    icon_base64 := icon_base64 app\<rparr>"
            by (simp add: attach_icon_def Let_def)
          then show ?thesis by blast
        qed
      qed
    qed
  qed
qed

lemma macos_record_fields:
  "path (macos_record lib b pl team) = app_path b"
  "macos_bundle_id (macos_record lib b pl team) = Some (plist_get pl ''CFBundleIdentifier'')"
  "(is_ai_app (macos_record lib b pl team), is_ai_host (macos_record lib b pl team)) =
     is_ai_related (name (macos_record lib b pl team)) (plist_get pl ''CFBundleIdentifier'')"
  "category (macos_record lib b pl team) =
     macos_category (is_ai_app (macos_record lib b pl team))
       (is_ai_host (macos_record lib b pl team)) (name (macos_record lib b pl team))"
  by (simp_all add: macos_record_def Let_def case_prod_beta macos_bundle_id_def)

text \<open>What a record returned for a bundle is.\<close>

lemma macos_discover_app_Some:
  assumes "macos_discover_app self lib fs b = (fs', Inr (Some a))"
  obtains pl team ip ib where
    "info_plist b = Loaded pl" "plist_get pl ''CFBundleIdentifier'' \<noteq> []"
    "a = (macos_record lib b pl team)\<lparr>icon_path := ip, icon_base64 := ib\<rparr>"
proof (cases "info_plist b")
  case NoInfoPlist
  with assms show ?thesis by (simp add: macos_discover_app_def)
next
  case LoadFails
  with assms show ?thesis by (simp add: macos_discover_app_def)
next
  case (Loaded pl)
  show ?thesis
  proof (cases "plist_get pl ''CFBundleIdentifier'' = []")
    case True
    with assms Loaded show ?thesis by (simp add: macos_discover_app_def)
  next
    case False
    show ?thesis
    proof (cases "get_team_id (codesign b)")
      case (Inl e)
      with assms Loaded False show ?thesis by (simp add: macos_discover_app_def)
    next
      case (Inr team)
      with assms Loaded False have
        "a = snd (attach_icon self lib fs b pl (macos_record lib b pl team))"
        by (auto simp add: macos_discover_app_def split: prod.splits)
      with attach_icon_fields [of self lib fs b pl "macos_record lib b pl team"]
      obtain ip ib where "a = (macos_record lib b pl team)\<lparr>icon_path := ip, icon_base64 := ib\<rparr>"
        by auto
      with that Loaded False show ?thesis by blast
    qed
  qed
qed

lemma macos_discover_app_None:
  assumes "macos_discover_app self lib fs b = (fs', Inr None)"
  shows "declared_id b = None"
proof (cases "info_plist b")
  case NoInfoPlist
  then show ?thesis by (simp add: declared_id_def)
next
  case LoadFails
  then show ?thesis by (simp add: declared_id_def)
next
  case (Loaded pl)
  show ?thesis
  proof (cases "plist_get pl ''CFBundleIdentifier'' = []")
    case True
    with Loaded show ?thesis by (simp add: declared_id_def)
  next
    case False
    with assms Loaded show ?thesis
      by (auto simp add: macos_discover_app_def split: sum.splits prod.splits)
  qed
qed

lemma macos_discover_app_found:
  assumes "macos_discover_app self lib fs b = (fs', Inr (Some a))"
  shows "declared_id b = macos_bundle_id a" "macos_bundle_id a \<noteq> None"
    "macos_bundle_id a \<noteq> Some []" "path a = app_path b"
    "\<not> (is_ai_app a \<and> is_ai_host a)"
    "category a = macos_category (is_ai_app a) (is_ai_host a) (name a)"
proof -
  from assms obtain pl team ip ib where
    l: "info_plist b = Loaded pl" and ne: "plist_get pl ''CFBundleIdentifier'' \<noteq> []"
    and a: "a = (macos_record lib b pl team)\<lparr>icon_path := ip, icon_base64 := ib\<rparr>"
    by (rule macos_discover_app_Some)
  let ?r = "macos_record lib b pl team"
  have m: "macos_bundle_id a = macos_bundle_id ?r" by (simp add: a macos_bundle_id_def)
  show "declared_id b = macos_bundle_id a"
    using l ne by (simp add: m macos_record_fields declared_id_def)
  show "macos_bundle_id a \<noteq> None" by (simp add: m macos_record_fields)
  show "macos_bundle_id a \<noteq> Some []" using ne by (simp add: m macos_record_fields)
  show "path a = app_path b" by (simp add: a macos_record_fields)
  have "(is_ai_app a, is_ai_host a) = is_ai_related (name ?r) (plist_get pl ''CFBundleIdentifier'')"
    using macos_record_fields(3) [of lib b pl team] by (simp add: a)
  then show "\<not> (is_ai_app a \<and> is_ai_host a)"
    using is_ai_related_not_both [of "name ?r" "plist_get pl ''CFBundleIdentifier''"] by auto
  show "category a = macos_category (is_ai_app a) (is_ai_host a) (name a)"
    using macos_record_fields(4) [of lib b pl team] by (simp add: a)
qed

subsection \<open>The scan loops keep the first bundle of each identifier\<close>

lemma find_append_Some: "find P xs = Some x \<Longrightarrow> find P (xs @ ys) = Some x"
  by (induction xs) (auto split: if_splits)

lemma find_append_None: "find P xs = None \<Longrightarrow> find P (xs @ ys) = find P ys"
  by (induction xs) (auto split: if_splits)

lemma add_if_new_None: "add_if_new None st = st"
  by (simp add: add_if_new_def)

lemma add_if_new_Some:
  "macos_bundle_id a = Some k \<Longrightarrow> k \<noteq> [] \<Longrightarrow>
   add_if_new (Some a) st = (if k \<notin> snd st then (fst st @ [a], insert k (snd st)) else st)"
  by (auto simp: add_if_new_def macos_bundle_id_def split: option.splits)

lemma scan_inv_skip:
  assumes "scan_inv scanned st" and "declared_id b = None"
  shows "scan_inv (scanned @ [b]) st"
proof -
  have i: "declared_id ` set (scanned @ [b]) - {None} = declared_id ` set scanned - {None}"
    using assms(2) by auto
  have s: "{k. Some k \<in> declared_id ` set (scanned @ [b])} = {k. Some k \<in> declared_id ` set scanned}"
    using assms(2) by auto
  have f: "\<forall>a \<in> set (fst st). \<exists>b'. find (\<lambda>b. declared_id b = macos_bundle_id a) (scanned @ [b]) = Some b'
                                   \<and> path a = app_path b'"
    using assms(1) unfolding scan_inv_def by (metis find_append_Some)
  show ?thesis
    unfolding scan_inv_def i s using assms(1) f unfolding scan_inv_def by blast
qed

lemma scan_inv_seen:
  assumes "scan_inv scanned st" and "declared_id b = Some k" and "k \<in> snd st"
  shows "scan_inv (scanned @ [b]) st"
proof -
  from assms have "Some k \<in> declared_id ` set scanned" by (simp add: scan_inv_def)
  with assms(2) have i: "declared_id ` set (scanned @ [b]) - {None} = declared_id ` set scanned - {None}"
    and s: "{k. Some k \<in> declared_id ` set (scanned @ [b])} = {k. Some k \<in> declared_id ` set scanned}"
    by auto
  have f: "\<forall>a \<in> set (fst st). \<exists>b'. find (\<lambda>b. declared_id b = macos_bundle_id a) (scanned @ [b]) = Some b'
                                   \<and> path a = app_path b'"
    using assms(1) unfolding scan_inv_def by (metis find_append_Some)
  show ?thesis
    unfolding scan_inv_def i s using assms(1) f unfolding scan_inv_def by blast
qed

lemma scan_inv_new:
  assumes inv: "scan_inv scanned st" and d: "declared_id b = Some k" and n: "k \<notin> snd st"
    and a: "macos_bundle_id a = Some k" "path a = app_path b"
  shows "scan_inv (scanned @ [b]) (fst st @ [a], insert k (snd st))"
proof -
  from inv n have notin: "Some k \<notin> declared_id ` set scanned" by (simp add: scan_inv_def)
  from inv have ids: "set (map macos_bundle_id (fst st)) = declared_id ` set scanned - {None}"
    by (simp add: scan_inv_def)
  with notin have fresh: "Some k \<notin> set (map macos_bundle_id (fst st))" by blast
  have 1: "distinct (map macos_bundle_id (fst st @ [a]))"
    using inv fresh a(1) by (simp add: scan_inv_def)
  have 2: "set (map macos_bundle_id (fst st @ [a])) = declared_id ` set (scanned @ [b]) - {None}"
    using ids a(1) d by auto
  have 3: "insert k (snd st) = {k. Some k \<in> declared_id ` set (scanned @ [b])}"
    using inv d by (auto simp: scan_inv_def)
  have none: "find (\<lambda>b. declared_id b = Some k) scanned = None"
    using notin by (auto simp: find_None_iff image_iff)
  have new: "find (\<lambda>b. declared_id b = macos_bundle_id a) (scanned @ [b]) = Some b"
    using find_append_None [OF none, of "[b]"] d a(1) by simp
  have old: "\<forall>a' \<in> set (fst st). \<exists>b'. find (\<lambda>b. declared_id b = macos_bundle_id a') (scanned @ [b]) = Some b'
                                   \<and> path a' = app_path b'"
    using inv unfolding scan_inv_def by (metis find_append_Some)
  have 4: "\<forall>a' \<in> set (fst st @ [a]). \<exists>b'. find (\<lambda>b. declared_id b = macos_bundle_id a') (scanned @ [b]) = Some b'
                                   \<and> path a' = app_path b'"
    using old new a(2) by auto
  show ?thesis
    unfolding scan_inv_def using 1 2 3 4 by simp
qed

lemma scan_inv_step:
  assumes d: "macos_discover_app self lib fs b = (fs1, Inr found)"
    and inv: "scan_inv scanned st"
  shows "scan_inv (scanned @ [b]) (add_if_new found st)"
proof (cases found)
  case None
  with d have "declared_id b = None" by (simp add: macos_discover_app_None)
  with inv None show ?thesis by (simp add: add_if_new_None scan_inv_skip)
next
  case (Some a)
  with d have da: "macos_discover_app self lib fs b = (fs1, Inr (Some a))" by simp
  note f = macos_discover_app_found [OF da]
  from f(2) obtain k where k: "macos_bundle_id a = Some k" by blast
  with f(3) have ne: "k \<noteq> []" by simp
  from f(1) k have dk: "declared_id b = Some k" by simp
  have step: "add_if_new found st = (if k \<notin> snd st then (fst st @ [a], insert k (snd st)) else st)"
    using Some add_if_new_Some [OF k ne] by simp
  show ?thesis
  proof (cases "k \<in> snd st")
    case True
    with step inv dk show ?thesis by (simp add: scan_inv_seen)
  next
    case False
    with step show ?thesis using scan_inv_new [OF inv dk False k f(4)] by simp
  qed
qed

lemma scan_bundles_inv:
  "scan_bundles self lib bs fs st = (fs', Inr st') \<Longrightarrow> scan_inv scanned st \<Longrightarrow>
   scan_inv (scanned @ bs) st'"
proof (induction bs arbitrary: fs st scanned)
  case Nil
  then show ?case by simp
next
  case (Cons b bs)
  obtain fs1 r where d: "macos_discover_app self lib fs b = (fs1, r)"
    by (cases "macos_discover_app self lib fs b")
  show ?case
  proof (cases r)
    case (Inl e)
    with Cons.prems(1) d show ?thesis by simp
  next
    case (Inr found)
    with Cons.prems(1) d have
      "scan_bundles self lib bs fs1 (add_if_new found st) = (fs', Inr st')" by simp
    moreover have "scan_inv (scanned @ [b]) (add_if_new found st)"
      using d Inr Cons.prems(2) by (simp add: scan_inv_step)
    ultimately have "scan_inv ((scanned @ [b]) @ bs) st'" by (rule Cons.IH)
    then show ?thesis by simp
  qed
qed

lemma scan_bundles_append:
  "scan_bundles self lib (xs @ ys) fs st =
     (case scan_bundles self lib xs fs st of
        (fs', Inl e) \<Rightarrow> (fs', Inl e)
      | (fs', Inr st') \<Rightarrow> scan_bundles self lib ys fs' st')"
proof (induction xs arbitrary: fs st)
  case Nil
  then show ?case by simp
next
  case (Cons b xs)
  obtain fs1 r where d: "macos_discover_app self lib fs b = (fs1, r)"
    by (cases "macos_discover_app self lib fs b")
  show ?case
  proof (cases r)
    case (Inl e)
    with d show ?thesis by simp
  next
    case (Inr found)
    with d Cons.IH [of fs1 "add_if_new found st"] show ?thesis by simp
  qed
qed

lemma scan_entries_flat:
  "scan_entries self lib ds fs st = scan_bundles self lib (concat (map entry_bundles ds)) fs st"
proof (induction ds arbitrary: fs st)
  case Nil
  then show ?case by simp
next
  case (Cons d ds)
  show ?case
  proof (cases "is_dir d \<and> \<not> suffix d = ''.app''")
    case True
    then have e: "entry_bundles d = entry_apps d" by (simp add: entry_bundles_def)
    obtain fs1 r where s: "scan_bundles self lib (entry_apps d) fs st = (fs1, r)"
      by (cases "scan_bundles self lib (entry_apps d) fs st")
    show ?thesis
      using True s Cons.IH
      by (cases r) (simp_all add: e scan_bundles_append)
  next
    case False
    then have "entry_bundles d = []" by (auto simp: entry_bundles_def)
    with False Cons.IH show ?thesis by auto
  qed
qed

lemma scan_roots_flat:
  "scan_roots self lib rs fs st = scan_bundles self lib (scan_order rs) fs st"
proof (induction rs arbitrary: fs st)
  case Nil
  then show ?case by (simp add: scan_order_def)
next
  case (Cons r rs)
  have o: "scan_order (r # rs) = root_bundles r @ scan_order rs"
    by (simp add: scan_order_def)
  show ?case
  proof (cases "root_exists r")
    case False
    then have "root_bundles r = []" by (simp add: root_bundles_def)
    with False Cons.IH show ?thesis by (simp add: o)
  next
    case True
    then have b: "root_bundles r = root_apps r @ concat (map entry_bundles (root_entries r))"
      by (simp add: root_bundles_def)
    obtain fs1 r1 where s1: "scan_bundles self lib (root_apps r) fs st = (fs1, r1)"
      by (cases "scan_bundles self lib (root_apps r) fs st")
    show ?thesis
    proof (cases r1)
      case (Inl e)
      with True s1 show ?thesis by (simp add: o b scan_bundles_append)
    next
      case (Inr st1)
      obtain fs2 r2 where s2:
        "scan_bundles self lib (concat (map entry_bundles (root_entries r))) fs1 st1 = (fs2, r2)"
        by (cases "scan_bundles self lib (concat (map entry_bundles (root_entries r))) fs1 st1")
      show ?thesis
        using True s1 Inr s2 Cons.IH
        by (cases r2) (simp_all add: o b scan_bundles_append scan_entries_flat)
    qed
  qed
qed

lemma scan_inv_init: "scan_inv [] ([], {})"
  by (simp add: scan_inv_def)

lemma macos_discover_all_inv:
  assumes "snd (macos_discover_all self lib search_paths fs) = Inr apps"
  shows "\<exists>seen. scan_inv (scan_order search_paths) (apps, seen)"
proof -
  obtain fs1 r where s: "scan_bundles self lib (scan_order search_paths) fs ([], {}) = (fs1, r)"
    by (cases "scan_bundles self lib (scan_order search_paths) fs ([], {})")
  show ?thesis
  proof (cases r)
    case (Inl e)
    with s assms show ?thesis by (simp add: macos_discover_all_def scan_roots_flat)
  next
    case (Inr st)
    with s assms have a: "apps = fst st" by (simp add: macos_discover_all_def scan_roots_flat)
    from s Inr have "scan_inv ([] @ scan_order search_paths) st"
      using scan_bundles_inv [OF _ scan_inv_init] by blast
    then have "scan_inv (scan_order search_paths) (apps, snd st)" by (simp add: a)
    then show ?thesis by blast
  qed
qed

text \<open>
  C7. When \<open>MacOSDiscoverer.discover_all\<close> returns, the bundle identifiers of its
  records are pairwise distinct; they are exactly the identifiers declared by the
  bundles in scan order, each once; and the path of every record is the path of the
  first bundle in scan order that declares the record's identifier.
\<close>

theorem macos_discover_all_first_occurrence:
  assumes "snd (macos_discover_all self lib search_paths fs) = Inr apps"
  shows "distinct (map macos_bundle_id apps)
    \<and> set (map macos_bundle_id apps) = declared_id ` set (scan_order search_paths) - {None}
    \<and> (\<forall>a \<in> set apps.
          \<exists>b. find (\<lambda>b. declared_id b = macos_bundle_id a) (scan_order search_paths) = Some b
               \<and> path a = app_path b)"
  using macos_discover_all_inv [OF assms] by (auto simp: scan_inv_def)

theorem macos_discover_all_first_occurrence_witness:
  "snd (macos_discover_all \<lparr>extract_icons = False, icons_dir = None\<rparr> example_lib
          example_search_paths Map.empty)
     = Inr (projr (snd (macos_discover_all \<lparr>extract_icons = False, icons_dir = None\<rparr> example_lib
          example_search_paths Map.empty)))
   \<and> map declared_id (scan_order example_search_paths)
       = [Some ''com.openai.chat'', Some ''com.apple.dt.Xcode'', Some ''com.openai.chat'']
   \<and> map app_path (scan_order example_search_paths)
       = [''/Applications/ChatGPT.app'', ''/Applications/Xcode.app'',
          ''/Applications/Old/ChatGPT.app'']
   \<and> map path (projr (snd (macos_discover_all \<lparr>extract_icons = False, icons_dir = None\<rparr>
          example_lib example_search_paths Map.empty)))
       = [''/Applications/ChatGPT.app'', ''/Applications/Xcode.app'']
   \<and> distinct (map macos_bundle_id
        (projr (snd (macos_discover_all \<lparr>extract_icons = False, icons_dir = None\<rparr> example_lib
          example_search_paths Map.empty))))
   \<and> (\<exists>b. find (\<lambda>b. declared_id b = Some ''com.openai.chat'') (scan_order example_search_paths)
             = Some b
            \<and> ''/Applications/ChatGPT.app'' = app_path b)"
proof -
  let ?D = "macos_discover_all \<lparr>extract_icons = False, icons_dir = None\<rparr> example_lib
          example_search_paths Map.empty"
  let ?apps = "projr (snd ?D)"
  have e: "snd ?D = Inr ?apps" by code_simp
  have d: "map declared_id (scan_order example_search_paths)
       = [Some ''com.openai.chat'', Some ''com.apple.dt.Xcode'', Some ''com.openai.chat'']"
    by code_simp
  have p: "map app_path (scan_order example_search_paths)
       = [''/Applications/ChatGPT.app'', ''/Applications/Xcode.app'',
          ''/Applications/Old/ChatGPT.app'']"
    by code_simp
  have q: "map path ?apps = [''/Applications/ChatGPT.app'', ''/Applications/Xcode.app'']"
    by code_simp
  have h: "?apps \<noteq> []" "macos_bundle_id (hd ?apps) = Some ''com.openai.chat''"
    "path (hd ?apps) = ''/Applications/ChatGPT.app''"
    by code_simp+
  note t = macos_discover_all_first_occurrence [OF e]
  from t have 1: "distinct (map macos_bundle_id ?apps)" by blast
  from h(1) have "hd ?apps \<in> set ?apps" by simp
  with t obtain b where
    "find (\<lambda>b. declared_id b = macos_bundle_id (hd ?apps)) (scan_order example_search_paths) = Some b"
    "path (hd ?apps) = app_path b"
    by blast
  with h have 2: "\<exists>b. find (\<lambda>b. declared_id b = Some ''com.openai.chat'')
                    (scan_order example_search_paths) = Some b
               \<and> ''/Applications/ChatGPT.app'' = app_path b"
    by auto
  from e d p q 1 2 show ?thesis by blast
qed

section \<open>Properties of \<open>discover_apps\<close>\<close>

subsection \<open>Every record of a collector comes from its record builder\<close>

lemma add_if_new_set:
  "a \<in> set (fst (add_if_new found st)) \<Longrightarrow> a \<in> set (fst st) \<or> found = Some a"
  by (auto simp: add_if_new_def split: option.splits if_splits)

lemma scan_bundles_all:
  assumes "scan_bundles self lib bs fs st = (fs', Inr st')"
    and "\<forall>a \<in> set (fst st). Q a"
    and "\<And>fs b fs1 a. macos_discover_app self lib fs b = (fs1, Inr (Some a)) \<Longrightarrow> Q a"
  shows "\<forall>a \<in> set (fst st'). Q a"
  using assms(1,2)
proof (induction bs arbitrary: fs st)
  case Nil
  then show ?case by simp
next
  case (Cons b bs)
  obtain fs1 r where d: "macos_discover_app self lib fs b = (fs1, r)"
    by (cases "macos_discover_app self lib fs b")
  show ?case
  proof (cases r)
    case (Inl e)
    with Cons.prems(1) d show ?thesis by simp
  next
    case (Inr found)
    with Cons.prems(1) d have
      s: "scan_bundles self lib bs fs1 (add_if_new found st) = (fs', Inr st')" by simp
    have "\<forall>a \<in> set (fst (add_if_new found st)). Q a"
    proof
      fix a
      assume "a \<in> set (fst (add_if_new found st))"
      then consider "a \<in> set (fst st)" | "found = Some a"
        using add_if_new_set by blast
      then show "Q a"
      proof cases
        case 1
        with Cons.prems(2) show ?thesis by blast
      next
        case 2
        with d Inr show ?thesis using assms(3) by blast
      qed
    qed
    with s show ?thesis by (rule Cons.IH)
  qed
qed

lemma macos_discover_all_all:
  assumes "snd (macos_discover_all self lib search_paths fs) = Inr apps"
    and "\<And>fs b fs1 a. macos_discover_app self lib fs b = (fs1, Inr (Some a)) \<Longrightarrow> Q a"
  shows "\<forall>a \<in> set apps. Q a"
proof -
  obtain fs1 r where s: "scan_bundles self lib (scan_order search_paths) fs ([], {}) = (fs1, r)"
    by (cases "scan_bundles self lib (scan_order search_paths) fs ([], {})")
  show ?thesis
  proof (cases r)
    case (Inl e)
    with s assms(1) show ?thesis by (simp add: macos_discover_all_def scan_roots_flat)
  next
    case (Inr st)
    with s assms(1) have a: "apps = fst st" by (simp add: macos_discover_all_def scan_roots_flat)
    from s Inr have "scan_bundles self lib (scan_order search_paths) fs ([], {}) = (fs1, Inr st)"
      by simp
    then have "\<forall>a \<in> set (fst st). Q a"
      by (rule scan_bundles_all) (simp, rule assms(2))
    with a show ?thesis by simp
  qed
qed

lemma scan_exes_all:
  assumes "\<forall>a \<in> set apps. Q a"
    and "\<And>exe a. windows_discover_app lib exe = Some a \<Longrightarrow> Q a"
  shows "\<forall>a \<in> set (scan_exes lib exes apps). Q a"
  using assms(1)
proof (induction exes arbitrary: apps)
  case Nil
  then show ?case by simp
next
  case (Cons exe rest)
  show ?case
  proof (cases "windows_discover_app lib exe")
    case None
    with Cons show ?thesis by simp
  next
    case (Some a)
    then have "Q a" by (rule assms(2))
    with Cons.prems have "\<forall>x \<in> set (apps @ [a]). Q x" by simp
    then have "\<forall>x \<in> set (scan_exes lib rest (apps @ [a])). Q x" by (rule Cons.IH)
    with Cons Some show ?thesis by simp
  qed
qed

lemma windows_discover_all_all:
  assumes "\<And>exe a. windows_discover_app lib exe = Some a \<Longrightarrow> Q a"
  shows "\<forall>a \<in> set (windows_discover_all lib search_paths). Q a"
proof -
  have "\<forall>a \<in> set (scan_install_roots lib rs apps). Q a" if "\<forall>a \<in> set apps. Q a" for rs apps
    using that
  proof (induction rs arbitrary: apps)
    case Nil
    then show ?case by simp
  next
    case (Cons r rs)
    have "\<forall>a \<in> set (scan_exes lib (install_exes r) apps). Q a"
      using Cons.prems assms by (rule scan_exes_all)
    with Cons show ?case by simp
  qed
  from this [of "[]" search_paths] show ?thesis by (simp add: windows_discover_all_def)
qed

lemma scan_desktop_files_all:
  assumes "scan_desktop_files lib ds apps = Inr apps'"
    and "\<forall>a \<in> set apps. Q a"
    and "\<And>d a. parse_desktop_file lib d = Inr (Some a) \<Longrightarrow> Q a"
  shows "\<forall>a \<in> set apps'. Q a"
  using assms(1,2)
proof (induction ds arbitrary: apps)
  case Nil
  then show ?case by simp
next
  case (Cons d ds)
  show ?case
  proof (cases "parse_desktop_file lib d")
    case (Inl e)
    with Cons.prems(1) show ?thesis by simp
  next
    case (Inr found)
    show ?thesis
    proof (cases found)
      case None
      with Inr Cons show ?thesis by simp
    next
      case (Some a)
      with Inr have "Q a" using assms(3) by blast
      with Cons.prems(2) have q: "\<forall>x \<in> set (apps @ [a]). Q x" by simp
      from Cons.prems(1) Inr Some have "scan_desktop_files lib ds (apps @ [a]) = Inr apps'"
        by simp
      then show ?thesis using q by (rule Cons.IH)
    qed
  qed
qed

lemma linux_discover_all_all:
  assumes "linux_discover_all lib dirs = Inr apps"
    and "\<And>d a. parse_desktop_file lib d = Inr (Some a) \<Longrightarrow> Q a"
  shows "\<forall>a \<in> set apps. Q a"
proof -
  have "\<forall>a \<in> set apps'. Q a"
    if "scan_desktop_dirs lib ds apps0 = Inr apps'" "\<forall>a \<in> set apps0. Q a" for ds apps0 apps'
    using that
  proof (induction ds arbitrary: apps0)
    case Nil
    then show ?case by simp
  next
    case (Cons d ds)
    show ?case
    proof (cases "dir_exists d")
      case False
      with Cons show ?thesis by simp
    next
      case True
      show ?thesis
      proof (cases "scan_desktop_files lib (dir_files d) apps0")
        case (Inl e)
        with True Cons.prems(1) show ?thesis by simp
      next
        case (Inr apps1)
        then have "\<forall>a \<in> set apps1. Q a"
          using Cons.prems(2) assms(2) by (rule scan_desktop_files_all)
        moreover from True Inr Cons.prems(1) have "scan_desktop_dirs lib ds apps1 = Inr apps'"
          by simp
        ultimately show ?thesis using Cons.IH by blast
      qed
    qed
  qed
  with assms(1) show ?thesis unfolding linux_discover_all_def by fastforce
qed

subsection \<open>What the record builders of Windows and Linux give\<close>

lemma windows_discover_app_found:
  assumes "windows_discover_app lib exe = Some a"
  shows "category a = ''other''" "\<not> (is_ai_app a \<and> is_ai_host a)"
proof -
  obtain ai host where r: "is_ai_related (exe_stem exe) [] = (ai, host)"
    by (cases "is_ai_related (exe_stem exe) []")
  with assms have a: "category a = ''other''" "is_ai_app a = ai" "is_ai_host a = host"
    by (auto simp: windows_discover_app_def Let_def split: if_splits)
  from a show "category a = ''other''" by simp
  from r a show "\<not> (is_ai_app a \<and> is_ai_host a)"
    using is_ai_related_not_both [of "exe_stem exe" "[]"] by auto
qed

lemma parse_desktop_file_found:
  assumes p: "parse_desktop_file lib d = Inr (Some a)"
  shows "category a = ''other''" "\<not> (is_ai_app a \<and> is_ai_host a)"
proof -
  obtain content where rd: "read_text d = ReadText content"
    using p by (cases "read_text d") (simp_all add: parse_desktop_file_def)
  obtain r where l: "desktop_lines (split_on CHR ''\<newline>'' content) None None = Inr r"
    using p rd by (cases "desktop_lines (split_on CHR ''\<newline>'' content) None None")
      (simp_all add: parse_desktop_file_def)
  obtain nmo ex where r: "r = (nmo, ex)" by (cases r)
  from p rd l r obtain nm where nm: "nmo = Some nm" "nm \<noteq> []"
    by (cases nmo) (auto simp: parse_desktop_file_def split: if_splits)
  obtain ai host where c: "is_ai_related nm [] = (ai, host)"
    by (cases "is_ai_related nm []")
  from p rd l r nm c have a: "category a = ''other''" "is_ai_app a = ai" "is_ai_host a = host"
    by (auto simp: parse_desktop_file_def Let_def)
  from a show "category a = ''other''" by simp
  from c a show "\<not> (is_ai_app a \<and> is_ai_host a)"
    using is_ai_related_not_both [of nm "[]"] by auto
qed

subsection \<open>The final order\<close>

lemma set_finish_apps: "set (finish_apps ai_only apps) \<subseteq> set apps"
  by (auto simp: finish_apps_def sort_apps_def)

lemma key_le_registry_le:
  assumes "\<not> (is_ai_app a \<and> is_ai_host a)" "\<not> (is_ai_app b \<and> is_ai_host b)"
    and "sort_key_of a \<le> sort_key_of b"
  shows "registry_le a b"
  using assms by (auto simp: sort_key_of_def registry_le_def tier_def)

lemma sorted_sort_apps:
  assumes "\<forall>a \<in> set apps. \<not> (is_ai_app a \<and> is_ai_host a)"
  shows "sorted_wrt registry_le (sort_apps apps)"
proof -
  have "sorted (map sort_key_of (sort_key sort_key_of apps))" by (rule sorted_sort_key)
  then have "sorted_wrt (\<lambda>a b. sort_key_of a \<le> sort_key_of b) (sort_apps apps)"
    by (simp add: sort_apps_def sorted_map)
  moreover have "registry_le a b"
    if "a \<in> set (sort_apps apps)" "b \<in> set (sort_apps apps)" "sort_key_of a \<le> sort_key_of b"
    for a b
    using that assms by (intro key_le_registry_le) (auto simp: sort_apps_def)
  ultimately show ?thesis by (rule sorted_wrt_mono_rel [rotated])
qed

lemma sorted_finish_apps:
  assumes "\<forall>a \<in> set apps. \<not> (is_ai_app a \<and> is_ai_host a)"
  shows "sorted_wrt registry_le (finish_apps ai_only apps)"
  unfolding finish_apps_def Let_def using assms by (intro sorted_sort_apps) auto

text \<open>What \<open>discover_apps\<close> returns is the finished list of one collector.\<close>

lemma discover_apps_cases:
  assumes "snd (discover_apps m lib fs ai_only with_icons dir) = Inr apps"
  obtains (mac) found where "system m = ''Darwin''"
      "snd (macos_discover_all \<lparr>extract_icons = with_icons, icons_dir = dir\<rparr> lib (applications m) fs)
         = Inr found"
      "apps = finish_apps ai_only found"
    | (win) "system m = ''Windows''"
      "apps = finish_apps ai_only (windows_discover_all lib (program_files m))"
    | (lin) found where "system m = ''Linux''" "linux_discover_all lib (desktop_dirs m) = Inr found"
      "apps = finish_apps ai_only found"
    | (other) "system m \<noteq> ''Darwin''" "system m \<noteq> ''Windows''" "system m \<noteq> ''Linux''" "apps = []"
proof -
  let ?self = "\<lparr>extract_icons = with_icons, icons_dir = dir\<rparr>"
  consider "system m = ''Darwin''"
    | "system m \<noteq> ''Darwin''" "system m = ''Windows''"
    | "system m \<noteq> ''Darwin''" "system m \<noteq> ''Windows''" "system m = ''Linux''"
    | "system m \<noteq> ''Darwin''" "system m \<noteq> ''Windows''" "system m \<noteq> ''Linux''"
    by blast
  then show ?thesis
  proof cases
    case 1
    obtain fs1 r where s: "macos_discover_all ?self lib (applications m) fs = (fs1, r)"
      by (cases "macos_discover_all ?self lib (applications m) fs")
    show ?thesis
    proof (cases r)
      case (Inl e)
      with 1 s assms show ?thesis by (simp add: discover_apps_def)
    next
      case (Inr found)
      with 1 s assms have "apps = finish_apps ai_only found" by (simp add: discover_apps_def)
      with 1 s Inr mac show ?thesis by simp
    qed
  next
    case 2
    with assms have "apps = finish_apps ai_only (windows_discover_all lib (program_files m))"
      by (simp add: discover_apps_def)
    with 2 win show ?thesis by simp
  next
    case 3
    show ?thesis
    proof (cases "linux_discover_all lib (desktop_dirs m)")
      case (Inl e)
      with 3 assms show ?thesis by (simp add: discover_apps_def)
    next
      case (Inr found)
      with 3 assms have "apps = finish_apps ai_only found" by (simp add: discover_apps_def)
      with 3 Inr lin show ?thesis by simp
    qed
  next
    case 4
    with assms have "apps = []" by (simp add: discover_apps_def)
    with 4 other show ?thesis by simp
  qed
qed

text \<open>No record that \<open>discover_apps\<close> returns carries both flags.\<close>

lemma discover_apps_flags:
  assumes "snd (discover_apps m lib fs ai_only with_icons dir) = Inr apps"
  shows "\<forall>a \<in> set apps. \<not> (is_ai_app a \<and> is_ai_host a)"
proof -
  have sub: "\<forall>a \<in> set (finish_apps ai_only found). \<not> (is_ai_app a \<and> is_ai_host a)"
    if "\<forall>a \<in> set found. \<not> (is_ai_app a \<and> is_ai_host a)" for found
    using that set_finish_apps [of ai_only found] by blast
  from assms show ?thesis
  proof (cases rule: discover_apps_cases)
    case (mac found)
    from mac(2) have "\<forall>a \<in> set found. \<not> (is_ai_app a \<and> is_ai_host a)"
      by (rule macos_discover_all_all) (rule macos_discover_app_found(5))
    with mac(3) sub show ?thesis by simp
  next
    case win
    have "\<forall>a \<in> set (windows_discover_all lib (program_files m)). \<not> (is_ai_app a \<and> is_ai_host a)"
      by (rule windows_discover_all_all) (rule windows_discover_app_found(2))
    with win(2) sub show ?thesis by simp
  next
    case (lin found)
    from lin(2) have "\<forall>a \<in> set found. \<not> (is_ai_app a \<and> is_ai_host a)"
      by (rule linux_discover_all_all) (rule parse_desktop_file_found(2))
    with lin(3) sub show ?thesis by simp
  next
    case other
    then show ?thesis by simp
  qed
qed

lemma macos_category_host: "macos_category False True nm = ''dev_tools''"
  by (simp add: macos_category_def)

text \<open>
  C5, as stated, fails: the Linux collector gives every record the category
  \<open>other\<close>. The desktop entry of Visual Studio Code is classified as an AI host and
  its category is \<open>other\<close>, not \<open>dev_tools\<close>.
\<close>

theorem parse_desktop_file_host_category_other:
  "parse_desktop_file example_lib
     \<lparr>read_text = ReadText ''[Desktop Entry]\<newline>Name=Visual Studio Code\<newline>Exec=/usr/share/code/code %F'',
      entry_clock = ''2024-01-01T00:00:01''\<rparr>
   = Inr (Some
       \<lparr>app_id = ''visual-studio-code'', name = ''Visual Studio Code'', vendor = None,
        category = ''other'', path = ''/usr/share/code/code'', macos = None, windows = None,
        linux = Some \<lparr>bundle_id = None, team_id = None, paths = [''/usr/share/code/code''],
                       executable_name = Some ''code'', publisher = None, version = None\<rparr>,
        icon_path = None, icon_base64 = None, is_ai_app = False, is_ai_host = True,
        discovered_at = ''2024-01-01T00:00:01'', machine_id = ''0123456789ab''\<rparr>)
   \<and> map category (projr (snd (discover_apps example_linux example_lib Map.empty False False None)))
       = [''other'', ''other'', ''other'']
   \<and> map is_ai_host (projr (snd (discover_apps example_linux example_lib Map.empty False False None)))
       = [False, True, False]"
  by code_simp

text \<open>
  C5, amended. On macOS every discovered application classified as an AI host and
  not as an AI application has the category \<open>dev_tools\<close>; on every other platform
  every discovered application has the category \<open>other\<close>.
\<close>

theorem discover_apps_host_category:
  assumes "snd (discover_apps m lib fs ai_only with_icons dir) = Inr apps"
  shows "(system m = ''Darwin'' \<longrightarrow>
            (\<forall>a \<in> set apps. is_ai_host a \<and> \<not> is_ai_app a \<longrightarrow> category a = ''dev_tools''))
         \<and> (system m \<noteq> ''Darwin'' \<longrightarrow> (\<forall>a \<in> set apps. category a = ''other''))"
  using assms
proof (cases rule: discover_apps_cases)
  case (mac found)
  have "is_ai_host a \<and> \<not> is_ai_app a \<longrightarrow> category a = ''dev_tools''"
    if "macos_discover_app self lib fs0 b = (fs1, Inr (Some a))" for self fs0 b fs1 a
    using macos_discover_app_found(6) [OF that] macos_category_host by auto
  with mac(2) have "\<forall>a \<in> set found. is_ai_host a \<and> \<not> is_ai_app a \<longrightarrow> category a = ''dev_tools''"
    by (rule macos_discover_all_all)
  with mac(1,3) set_finish_apps [of ai_only found] show ?thesis by blast
next
  case win
  have "\<forall>a \<in> set (windows_discover_all lib (program_files m)). category a = ''other''"
    by (rule windows_discover_all_all) (rule windows_discover_app_found(1))
  with win set_finish_apps [of ai_only "windows_discover_all lib (program_files m)"]
  show ?thesis by auto
next
  case (lin found)
  from lin(2) have "\<forall>a \<in> set found. category a = ''other''"
    by (rule linux_discover_all_all) (rule parse_desktop_file_found(1))
  with lin(1,3) set_finish_apps [of ai_only found] show ?thesis by auto
next
  case other
  then show ?thesis by simp
qed

theorem discover_apps_host_category_witness:
  "snd (discover_apps example_mac example_lib Map.empty False False None)
     = Inr (projr (snd (discover_apps example_mac example_lib Map.empty False False None)))
   \<and> system example_mac = ''Darwin''
   \<and> name (projr (snd (discover_apps example_mac example_lib Map.empty False False None)) ! 1)
       = ''Xcode''
   \<and> is_ai_host (projr (snd (discover_apps example_mac example_lib Map.empty False False None)) ! 1)
   \<and> \<not> is_ai_app (projr (snd (discover_apps example_mac example_lib Map.empty False False None)) ! 1)
   \<and> category (projr (snd (discover_apps example_mac example_lib Map.empty False False None)) ! 1)
       = ''dev_tools''
   \<and> snd (discover_apps example_linux example_lib Map.empty False False None)
       = Inr (projr (snd (discover_apps example_linux example_lib Map.empty False False None)))
   \<and> system example_linux \<noteq> ''Darwin''
   \<and> name (projr (snd (discover_apps example_linux example_lib Map.empty False False None)) ! 1)
       = ''Visual Studio Code''
   \<and> is_ai_host (projr (snd (discover_apps example_linux example_lib Map.empty False False None)) ! 1)
   \<and> category (projr (snd (discover_apps example_linux example_lib Map.empty False False None)) ! 1)
       = ''other''"
proof -
  let ?M = "projr (snd (discover_apps example_mac example_lib Map.empty False False None))"
  let ?L = "projr (snd (discover_apps example_linux example_lib Map.empty False False None))"
  have em: "snd (discover_apps example_mac example_lib Map.empty False False None) = Inr ?M"
    by code_simp
  have el: "snd (discover_apps example_linux example_lib Map.empty False False None) = Inr ?L"
    by code_simp
  have sm: "system example_mac = ''Darwin''" by (simp add: example_mac_def)
  have sl: "system example_linux \<noteq> ''Darwin''" by (simp add: example_linux_def)
  have m: "length ?M = 2" "name (?M ! 1) = ''Xcode''" "is_ai_host (?M ! 1)" "\<not> is_ai_app (?M ! 1)"
    by code_simp+
  have l: "length ?L = 3" "name (?L ! 1) = ''Visual Studio Code''" "is_ai_host (?L ! 1)"
    by code_simp+
  from m(1) have inm: "?M ! 1 \<in> set ?M" by (intro nth_mem) simp
  from l(1) have inl: "?L ! 1 \<in> set ?L" by (intro nth_mem) simp
  from discover_apps_host_category [OF em] sm inm m(3,4)
  have cm: "category (?M ! 1) = ''dev_tools''" by blast
  from discover_apps_host_category [OF el] sl inl
  have cl: "category (?L ! 1) = ''other''" by blast
  from em sm m cm el sl l cl show ?thesis by blast
qed

text \<open>
  C6. The list \<open>discover_apps\<close> returns is in registry order: between any two of its
  records, the earlier one is in an earlier tier (AI applications, AI hosts,
  others) or in the same tier with a lower-cased name that is not greater. The sort
  step orders any list of records that never carry both flags so, and keeps its
  records; the records Z (neither), A (AI application), M (AI host) come out as
  A, M, Z.
\<close>

theorem discover_apps_registry_order:
  "(snd (discover_apps m lib fs ai_only with_icons dir) = Inr apps \<longrightarrow> sorted_wrt registry_le apps)
   \<and> ((\<forall>a \<in> set xs. \<not> (is_ai_app a \<and> is_ai_host a))
        \<longrightarrow> sorted_wrt registry_le (sort_apps xs) \<and> mset (sort_apps xs) = mset xs)
   \<and> map name (sort_apps [example_app ''Z'' False False, example_app ''A'' True False,
                          example_app ''M'' False True])
       = [''A'', ''M'', ''Z'']"
proof (intro conjI impI)
  assume a: "snd (discover_apps m lib fs ai_only with_icons dir) = Inr apps"
  then show "sorted_wrt registry_le apps"
  proof (cases rule: discover_apps_cases)
    case (mac found)
    from mac(2) have "\<forall>a \<in> set found. \<not> (is_ai_app a \<and> is_ai_host a)"
      by (rule macos_discover_all_all) (rule macos_discover_app_found(5))
    with mac(3) show ?thesis by (simp add: sorted_finish_apps)
  next
    case win
    have "\<forall>a \<in> set (windows_discover_all lib (program_files m)). \<not> (is_ai_app a \<and> is_ai_host a)"
      by (rule windows_discover_all_all) (rule windows_discover_app_found(2))
    with win(2) show ?thesis by (simp add: sorted_finish_apps)
  next
    case (lin found)
    from lin(2) have "\<forall>a \<in> set found. \<not> (is_ai_app a \<and> is_ai_host a)"
      by (rule linux_discover_all_all) (rule parse_desktop_file_found(2))
    with lin(3) show ?thesis by (simp add: sorted_finish_apps)
  next
    case other
    then show ?thesis by simp
  qed
next
  assume "\<forall>a \<in> set xs. \<not> (is_ai_app a \<and> is_ai_host a)"
  then show "sorted_wrt registry_le (sort_apps xs)" by (rule sorted_sort_apps)
next
  show "mset (sort_apps xs) = mset xs" by (simp add: sort_apps_def)
next
  show "map name (sort_apps [example_app ''Z'' False False, example_app ''A'' True False,
                          example_app ''M'' False True])
       = [''A'', ''M'', ''Z'']"
    by code_simp
qed

theorem discover_apps_registry_order_witness:
  "snd (discover_apps example_linux example_lib Map.empty False False None)
     = Inr (projr (snd (discover_apps example_linux example_lib Map.empty False False None)))
   \<and> map name (projr (snd (discover_apps example_linux example_lib Map.empty False False None)))
       = [''Cursor'', ''Visual Studio Code'', ''Zoom'']
   \<and> sorted_wrt registry_le
        (projr (snd (discover_apps example_linux example_lib Map.empty False False None)))
   \<and> list_all (\<lambda>a. \<not> (is_ai_app a \<and> is_ai_host a))
        [example_app ''Z'' False False, example_app ''A'' True False, example_app ''M'' False True]
   \<and> sorted_wrt registry_le
        (sort_apps [example_app ''Z'' False False, example_app ''A'' True False,
                    example_app ''M'' False True])
   \<and> map name (sort_apps [example_app ''Z'' False False, example_app ''A'' True False,
                          example_app ''M'' False True])
       = [''A'', ''M'', ''Z'']"
proof -
  let ?L = "projr (snd (discover_apps example_linux example_lib Map.empty False False None))"
  let ?xs = "[example_app ''Z'' False False, example_app ''A'' True False, example_app ''M'' False True]"
  have el: "snd (discover_apps example_linux example_lib Map.empty False False None) = Inr ?L"
    by code_simp
  have n: "map name ?L = [''Cursor'', ''Visual Studio Code'', ''Zoom'']" by code_simp
  have f: "list_all (\<lambda>a. \<not> (is_ai_app a \<and> is_ai_host a)) ?xs"
    by (simp add: example_app_def)
  then have f': "\<forall>a \<in> set ?xs. \<not> (is_ai_app a \<and> is_ai_host a)"
    by (simp only: list_all_iff)
  note t = discover_apps_registry_order
    [of example_linux example_lib Map.empty False False None ?L ?xs]
  from t el have 1: "sorted_wrt registry_le ?L" by blast
  from t f' have 2: "sorted_wrt registry_le (sort_apps ?xs)" by blast
  from t have 3: "map name (sort_apps ?xs) = [''A'', ''M'', ''Z'']" by blast
  from el n 1 f 2 3 show ?thesis by blast
qed

end
